theory Spec2Isabelle
  imports Complex_Main "HOL-Library.Multiset"
begin

chapter \<open>The embedding of the script\<close>

section \<open>Conventions of the embedding\<close>

text \<open>
  The program is one browser script, \<^verbatim>\<open>script.js\<close>. Its module-level variables and the
  properties of the DOM elements it touches become fields of records, one record per
  subsystem; every handler becomes a function from state to state. JavaScript numbers that
  only ever hold small non-negative integers (counters, indices) are \<open>nat\<close>; numbers that
  hold coordinates and velocities are \<open>real\<close>, so the rounding of IEEE doubles is not part of
  the model. A call of \<^verbatim>\<open>Math.random()\<close> reads the next value of a stream
  \<open>rnd :: nat \<Rightarrow> real\<close> that the caller of a handler supplies: \<open>rnd 0\<close> is the first draw of
  that invocation. A \<^verbatim>\<open>setTimeout\<close> or \<^verbatim>\<open>requestAnimationFrame\<close> leaves a
  pending entry in the state; firing an entry is a separate step.
\<close>

definition valid_random :: "(nat \<Rightarrow> real) \<Rightarrow> bool" where
  \<comment> \<open>The contract of \<^verbatim>\<open>Math.random()\<close>: every draw lies in the interval from 0 (inclusive) to 1 (exclusive).\<close>
  "valid_random rnd = (\<forall>n. 0 \<le> rnd n \<and> rnd n < 1)"

section \<open>Selection challenge: the CAPTCHA grid\<close>

subsection \<open>The catalog\<close>

record captcha_image =
  src :: string
  isTarget :: bool
  alt :: string

definition CAPTCHA_IMAGES :: "captcha_image list" where
  "CAPTCHA_IMAGES =
    [\<lparr>src = ''assets/captcha/boyfriend-1.jpg'', isTarget = True,  alt = ''Photo candidate 1''\<rparr>,
     \<lparr>src = ''assets/captcha/boyfriend-2.jpg'', isTarget = True,  alt = ''Photo candidate 2''\<rparr>,
     \<lparr>src = ''assets/captcha/boyfriend-3.jpg'', isTarget = True,  alt = ''Photo candidate 3''\<rparr>,
     \<lparr>src = ''assets/captcha/boyfriend-4.jpg'', isTarget = True,  alt = ''Photo candidate 4''\<rparr>,
     \<lparr>src = ''assets/captcha/other-1.jpg'',     isTarget = False, alt = ''Photo candidate 5''\<rparr>,
     \<lparr>src = ''assets/captcha/other-2.jpg'',     isTarget = False, alt = ''Photo candidate 6''\<rparr>,
     \<lparr>src = ''assets/captcha/other-3.jpg'',     isTarget = False, alt = ''Photo candidate 7''\<rparr>,
     \<lparr>src = ''assets/captcha/other-4.jpg'',     isTarget = False, alt = ''Photo candidate 8''\<rparr>,
     \<lparr>src = ''assets/captcha/other-5.jpg'',     isTarget = False, alt = ''Photo candidate 9''\<rparr>]"

subsection \<open>Strings stored in \<^verbatim>\<open>dataset\<close>\<close>

text \<open>
  \<^verbatim>\<open>cell.dataset.index = index\<close> stores the decimal text of the number and
  \<^verbatim>\<open>cell.dataset.isTarget = imgData.isTarget\<close> stores \<^verbatim>\<open>"true"\<close> or \<^verbatim>\<open>"false"\<close>;
  \<^verbatim>\<open>verifyCaptcha\<close> reads them back with \<^verbatim>\<open>parseInt\<close> and \<^verbatim>\<open>=== 'true'\<close>.
  \<open>parseInt\<close> is modelled on what the grid can hold: it reads the leading decimal digits
  and yields \<open>None\<close> (JavaScript's \<^verbatim>\<open>NaN\<close>) when there is none; white space, signs and
  radix prefixes are not modelled.
\<close>

definition digit_char :: "nat \<Rightarrow> char" where
  "digit_char d = char_of (48 + d)"

definition is_digit :: "char \<Rightarrow> bool" where
  "is_digit c = (48 \<le> (of_char c :: nat) \<and> (of_char c :: nat) \<le> 57)"

definition digit_val :: "char \<Rightarrow> nat" where
  "digit_val c = of_char c - 48"

fun number_toString :: "nat \<Rightarrow> string" where
  "number_toString n =
     (if n < 10 then [digit_char n]
      else number_toString (n div 10) @ [digit_char (n mod 10)])"

declare number_toString.simps [simp del]

definition boolean_toString :: "bool \<Rightarrow> string" where
  "boolean_toString b = (if b then ''true'' else ''false'')"

definition parseInt :: "string \<Rightarrow> nat option" where
  "parseInt s =
     (let ds = takeWhile is_digit s
      in if ds = [] then None
         else Some (fold (\<lambda>c acc. acc * 10 + digit_val c) ds 0))"

subsection \<open>Grid cells and the state of the challenge\<close>

record captcha_cell =
  dataset_index :: string
  dataset_isTarget :: string
  cell_selected :: bool
  aria_checked :: string
  aria_label :: string
  img_src :: string
  img_alt :: string

datatype captcha_callback = GoToProposal | RemoveShake

record captcha_state =
  captchaGrid :: "captcha_cell list"
  selectedCells :: "nat set"
  failureCount :: nat
  verifyBtn_disabled :: bool
  captchaError_text :: string
  captchaError_visible :: bool
  captchaHint_visible :: bool
  container_shake :: bool
  container_transition :: string
  container_transform :: string
  container_opacity :: string
  captcha_timers :: "(nat \<times> captcha_callback) list"

subsection \<open>\<^verbatim>\<open>shuffleArray\<close>\<close>

text \<open>
  \<^verbatim>\<open>for (let i = arr.length - 1; i > 0; i--) { j = Math.floor(Math.random() * (i + 1)); swap }\<close>.
  The loop counts \<open>i\<close> down to 1; the \<open>k\<close>-th iteration reads draw \<open>pos + k\<close>.
\<close>

fun shuffle_loop :: "(nat \<Rightarrow> real) \<Rightarrow> nat \<Rightarrow> nat \<Rightarrow> 'a list \<Rightarrow> 'a list" where
  "shuffle_loop rnd pos 0 arr = arr"
| "shuffle_loop rnd pos (Suc k) arr =
     (let i = Suc k;
          j = nat \<lfloor>rnd pos * real (i + 1)\<rfloor>
      in shuffle_loop rnd (Suc pos) k (arr[i := arr ! j, j := arr ! i]))"

definition shuffleArray :: "(nat \<Rightarrow> real) \<Rightarrow> 'a list \<Rightarrow> 'a list" where
  "shuffleArray rnd arr = shuffle_loop rnd 0 (length arr - 1) arr"

subsection \<open>\<^verbatim>\<open>initCaptchaGrid\<close>, \<^verbatim>\<open>toggleCell\<close>, \<^verbatim>\<open>updateVerifyButton\<close>\<close>

definition updateVerifyButton :: "captcha_state \<Rightarrow> captcha_state" where
  "updateVerifyButton s = s\<lparr>verifyBtn_disabled := (selectedCells s = {})\<rparr>"

definition make_cell :: "captcha_image \<Rightarrow> nat \<Rightarrow> captcha_cell" where
  "make_cell imgData index =
     \<lparr>dataset_index = number_toString index,
      dataset_isTarget = boolean_toString (isTarget imgData),
      cell_selected = False,
      aria_checked = ''false'',
      aria_label = alt imgData,
      img_src = src imgData,
      img_alt = alt imgData\<rparr>"

definition build_cells :: "captcha_image list \<Rightarrow> captcha_cell list" where
  \<comment> \<open>\<^verbatim>\<open>shuffled.forEach((imgData, index) => ... captchaGrid.appendChild(cell))\<close>\<close>
  "build_cells shuffled = map (\<lambda>index. make_cell (shuffled ! index) index) [0..<length shuffled]"

definition initCaptchaGrid :: "(nat \<Rightarrow> real) \<Rightarrow> captcha_state \<Rightarrow> captcha_state" where
  "initCaptchaGrid rnd s =
     (let s1 = s\<lparr>captchaGrid := []\<rparr>;
          s2 = s1\<lparr>selectedCells := {}\<rparr>;
          s3 = updateVerifyButton s2;
          shuffled = shuffleArray rnd CAPTCHA_IMAGES
      in s3\<lparr>captchaGrid := build_cells shuffled\<rparr>)"

text \<open>
  A cell's click handler closes over the cell and its display index; the cell is the
  \<open>index\<close>-th child of the grid, so the handler is modelled by the index alone.
\<close>

definition toggleCell :: "nat \<Rightarrow> captcha_state \<Rightarrow> captcha_state" where
  "toggleCell index s =
     (let g = captchaGrid s;
          s1 = (if index \<in> selectedCells s
                then s\<lparr>selectedCells := selectedCells s - {index},
                       captchaGrid := g[index := (g ! index)\<lparr>cell_selected := False, aria_checked := ''false''\<rparr>]\<rparr>
                else s\<lparr>selectedCells := insert index (selectedCells s),
                       captchaGrid := g[index := (g ! index)\<lparr>cell_selected := True, aria_checked := ''true''\<rparr>]\<rparr>);
          s2 = updateVerifyButton s1
      in s2\<lparr>captchaError_visible := False\<rparr>)"

subsection \<open>\<^verbatim>\<open>verifyCaptcha\<close>\<close>

definition set_has :: "nat set \<Rightarrow> nat option \<Rightarrow> bool" where
  \<comment> \<open>\<^verbatim>\<open>selectedCells.has(index)\<close>; the set only ever holds numbers, so \<^verbatim>\<open>NaN\<close> is not in it.\<close>
  "set_has S v = (case v of None \<Rightarrow> False | Some n \<Rightarrow> n \<in> S)"

definition check_cell :: "nat set \<Rightarrow> captcha_cell \<Rightarrow> bool \<Rightarrow> bool" where
  \<comment> \<open>the body of the \<^verbatim>\<open>cells.forEach\<close> callback, as a function of the flag \<^verbatim>\<open>allCorrect\<close>\<close>
  "check_cell sel cell ok =
     (let index = parseInt (dataset_index cell);
          isTarget = (dataset_isTarget cell = ''true'');
          isSelected = set_has sel index
      in if isTarget \<noteq> isSelected then False else ok)"

definition allCorrect :: "captcha_cell list \<Rightarrow> nat set \<Rightarrow> bool" where
  \<comment> \<open>\<^verbatim>\<open>let allCorrect = true; cells.forEach(...)\<close>\<close>
  "allCorrect cells sel = fold (check_cell sel) cells True"

definition captcha_messages :: "string list" where
  \<comment> \<open>the last message ends in the code point U+1F494, written here as its four UTF-8 bytes\<close>
  "captcha_messages =
     [''Hmm, that's not right. Try again'',
      ''Umm ... come on now'',
      ''Ok now i'm offended '' @ [CHR 0xF0, CHR 0x9F, CHR 0x92, CHR 0x94]]"

definition verify_success :: "captcha_state \<Rightarrow> captcha_state" where
  "verify_success s =
     s\<lparr>container_transition := ''transform 400ms ease, opacity 400ms ease'',
       container_transform := ''scale(0.95)'',
       container_opacity := ''0'',
       captcha_timers := captcha_timers s @ [(500, GoToProposal)]\<rparr>"

definition verify_failure :: "captcha_state \<Rightarrow> captcha_state" where
  "verify_failure s =
     (let s1 = s\<lparr>failureCount := failureCount s + 1\<rparr>;
          s2 = s1\<lparr>container_shake := True\<rparr>;
          msgIndex = min (failureCount s1 - 1) (length captcha_messages - 1)
      in s2\<lparr>captchaError_text := captcha_messages ! msgIndex,
            captchaError_visible := True,
            captchaHint_visible := True,
            captcha_timers := captcha_timers s2 @ [(500, RemoveShake)]\<rparr>)"

definition verifyCaptcha :: "captcha_state \<Rightarrow> captcha_state" where
  "verifyCaptcha s =
     (if allCorrect (captchaGrid s) (selectedCells s) then verify_success s else verify_failure s)"

subsection \<open>Sessions of the challenge\<close>

datatype captcha_event = Toggle nat | Verify

fun captcha_step :: "captcha_event \<Rightarrow> captcha_state \<Rightarrow> captcha_state" where
  "captcha_step (Toggle index) s = toggleCell index s"
| "captcha_step Verify s = verifyCaptcha s"

fun captcha_run :: "captcha_event list \<Rightarrow> captcha_state \<Rightarrow> captcha_state" where
  "captcha_run [] s = s"
| "captcha_run (e # es) s = captcha_run es (captcha_step e s)"

fun rejections :: "captcha_event list \<Rightarrow> captcha_state \<Rightarrow> nat" where
  \<comment> \<open>how many \<^verbatim>\<open>verifyCaptcha\<close> calls of a session took the failure branch\<close>
  "rejections [] s = 0"
| "rejections (e # es) s =
     (if e = Verify \<and> \<not> allCorrect (captchaGrid s) (selectedCells s) then 1 else 0)
       + rejections es (captcha_step e s)"

definition captcha_page_load :: captcha_state where
  \<comment> \<open>the module-level initial values, before \<^verbatim>\<open>DOMContentLoaded\<close> builds the first grid\<close>
  "captcha_page_load =
     \<lparr>captchaGrid = [], selectedCells = {}, failureCount = 0, verifyBtn_disabled = True,
      captchaError_text = [], captchaError_visible = False, captchaHint_visible = False,
      container_shake = False, container_transition = [], container_transform = [],
      container_opacity = [], captcha_timers = []\<rparr>"

definition grid_shows :: "captcha_cell list \<Rightarrow> captcha_image list \<Rightarrow> bool" where
  "grid_shows cells shuffled =
     (map dataset_index cells = map number_toString [0..<length shuffled]
      \<and> map dataset_isTarget cells = map (\<lambda>im. boolean_toString (isTarget im)) shuffled)"


subsection \<open>Sample rounds\<close>

definition round_zero :: captcha_state where
  \<comment> \<open>the first round of a page load on which every draw of the shuffle is 0\<close>
  "round_zero = initCaptchaGrid (\<lambda>n. 0) captcha_page_load"

definition round_zero_selected :: captcha_state where
  "round_zero_selected = captcha_run [Toggle 0, Toggle 1, Toggle 2, Toggle 8] round_zero"

definition round_zero_twice_wrong :: captcha_state where
  "round_zero_twice_wrong = captcha_run [Verify, Toggle 3, Verify] round_zero"

section \<open>Evasive control: the No button\<close>

subsection \<open>Geometry and events\<close>

text \<open>
  A \<^verbatim>\<open>DOMRect\<close> as \<^verbatim>\<open>getBoundingClientRect()\<close> returns it: \<open>right\<close> and \<open>bottom\<close> are
  derived from the origin and the (non-negative) size. The rectangles of the two buttons and
  the size of the viewport are computed by the browser's layout, so they are inputs of each
  call.
\<close>

record rect =
  rect_left :: real
  rect_top :: real
  rect_width :: real
  rect_height :: real

definition rect_right :: "rect \<Rightarrow> real" where
  "rect_right r = rect_left r + rect_width r"

definition rect_bottom :: "rect \<Rightarrow> real" where
  "rect_bottom r = rect_top r + rect_height r"

text \<open>
  A mouse event carries \<^verbatim>\<open>clientX\<close> and \<^verbatim>\<open>clientY\<close>; a touch event carries the list
  \<^verbatim>\<open>touches\<close>, which is not empty for \<^verbatim>\<open>touchstart\<close> and \<^verbatim>\<open>touchmove\<close>, the two events
  the script listens to: its first element is kept apart.
\<close>

datatype pointer_event =
    MouseEvent real real
  | TouchEvent "real \<times> real" "(real \<times> real) list"

record evade_env =
  env_noBtnRect :: rect
  env_yesRect :: rect
  env_innerWidth :: real
  env_innerHeight :: real

datatype css_length = Unset | Px real

datatype evasion_callback = HideNoButton

record evasion_state =
  noEvadeAttempts :: nat
  noButtonGone :: bool
  noBtn_display :: string
  noBtn_transform :: string
  noBtn_opacity :: string
  noBtn_transition :: string
  noBtn_left :: css_length
  noBtn_top :: css_length
  noBtn_evading :: bool
  noGoneMsg_text :: string
  noGoneMsg_visible :: bool
  evasion_timers :: "(nat \<times> evasion_callback) list"

definition MAX_EVADE_BEFORE_GONE :: nat where
  "MAX_EVADE_BEFORE_GONE = 8"

definition hypot :: "real \<Rightarrow> real \<Rightarrow> real" where
  "hypot a b = sqrt (a\<^sup>2 + b\<^sup>2)"

definition client_point :: "pointer_event \<Rightarrow> real \<times> real" where
  \<comment> \<open>\<^verbatim>\<open>if (e.touches) { e.touches[0].clientX ... } else { e.clientX ... }\<close>\<close>
  "client_point e = (case e of TouchEvent t ts \<Rightarrow> t | MouseEvent x y \<Rightarrow> (x, y))"

definition pointer_distance :: "evade_env \<Rightarrow> pointer_event \<Rightarrow> real" where
  "pointer_distance env e =
     (let noBtnRect = env_noBtnRect env;
          btnCenterX = rect_left noBtnRect + rect_width noBtnRect / 2;
          btnCenterY = rect_top noBtnRect + rect_height noBtnRect / 2;
          (clientX, clientY) = client_point e
      in hypot (clientX - btnCenterX) (clientY - btnCenterY))"

definition detectionRadius :: "nat \<Rightarrow> real" where
  \<comment> \<open>\<^verbatim>\<open>Math.max(60, 120 - noEvadeAttempts * 5)\<close>\<close>
  "detectionRadius attempts = max 60 (120 - real attempts * 5)"

definition transitionSpeed :: "nat \<Rightarrow> int" where
  \<comment> \<open>\<^verbatim>\<open>Math.max(150, 300 - noEvadeAttempts * 15)\<close>\<close>
  "transitionSpeed attempts = max 150 (300 - int attempts * 15)"

subsection \<open>The position sampling loop\<close>

definition padding :: real where
  "padding = 20"

definition sample_x :: "(nat \<Rightarrow> real) \<Rightarrow> real \<Rightarrow> real \<Rightarrow> nat \<Rightarrow> real" where
  \<comment> \<open>\<^verbatim>\<open>newX\<close> of the iteration that starts with \<^verbatim>\<open>attempts = k\<close>\<close>
  "sample_x rnd vw btnW k = padding + rnd (2 * k) * (vw - btnW - padding * 2)"

definition sample_y :: "(nat \<Rightarrow> real) \<Rightarrow> real \<Rightarrow> real \<Rightarrow> nat \<Rightarrow> real" where
  "sample_y rnd vh btnH k = padding + rnd (2 * k + 1) * (vh - btnH - padding * 2)"

definition overlaps_yes :: "rect \<Rightarrow> real \<Rightarrow> real \<Rightarrow> real \<Rightarrow> real \<Rightarrow> bool" where
  \<comment> \<open>the geometric part of the loop condition\<close>
  "overlaps_yes yesRect btnW btnH newX newY =
     (newX < rect_right yesRect + 30 \<and>
      newX + btnW > rect_left yesRect - 30 \<and>
      newY < rect_bottom yesRect + 30 \<and>
      newY + btnH > rect_top yesRect - 30)"

text \<open>
  \<^verbatim>\<open>do { newX = ...; newY = ...; attempts++; } while (attempts < 50 && overlap)\<close>, as a
  function of the value of \<^verbatim>\<open>attempts\<close> at the start of an iteration. It returns the
  accepted coordinates and the final value of \<^verbatim>\<open>attempts\<close>. Each iteration draws twice.
\<close>

function sample_position ::
  "(nat \<Rightarrow> real) \<Rightarrow> real \<Rightarrow> real \<Rightarrow> real \<Rightarrow> real \<Rightarrow> rect \<Rightarrow> nat \<Rightarrow> real \<times> real \<times> nat" where
  "sample_position rnd vw vh btnW btnH yesRect attempts =
     (let newX = sample_x rnd vw btnW attempts;
          newY = sample_y rnd vh btnH attempts;
          attempts' = attempts + 1
      in if attempts' < 50 \<and> overlaps_yes yesRect btnW btnH newX newY
         then sample_position rnd vw vh btnW btnH yesRect attempts'
         else (newX, newY, attempts'))"
  by pat_completeness auto
termination
  by (relation "measure (\<lambda>(rnd, vw, vh, btnW, btnH, yesRect, attempts). 50 - attempts)") auto

declare sample_position.simps [simp del]

subsection \<open>\<^verbatim>\<open>evadeNoButton\<close>\<close>

definition transition_text :: "int \<Rightarrow> string" where
  \<comment> \<open>the template string assigned to \<^verbatim>\<open>noBtn.style.transition\<close>\<close>
  "transition_text speed =
     ''left '' @ number_toString (nat speed) @ ''ms cubic-bezier(0.68, -0.55, 0.265, 1.55), top ''
       @ number_toString (nat speed) @ ''ms cubic-bezier(0.68, -0.55, 0.265, 1.55)''"

definition retire_button :: "evasion_state \<Rightarrow> evasion_state" where
  \<comment> \<open>the branch taken when the count has reached \<^verbatim>\<open>MAX_EVADE_BEFORE_GONE\<close>\<close>
  "retire_button s =
     s\<lparr>noBtn_transition := ''transform 400ms ease, opacity 400ms ease'',
       noBtn_transform := ''scale(0)'',
       noBtn_opacity := ''0'',
       noButtonGone := True,
       evasion_timers := evasion_timers s @ [(400, HideNoButton)]\<rparr>"

definition move_button :: "(nat \<Rightarrow> real) \<Rightarrow> evade_env \<Rightarrow> evasion_state \<Rightarrow> evasion_state" where
  \<comment> \<open>the rest of the body: mark as evading, sample a position, move there\<close>
  "move_button rnd env s =
     (let s1 = (if \<not> noBtn_evading s then s\<lparr>noBtn_evading := True\<rparr> else s);
          vw = env_innerWidth env;
          vh = env_innerHeight env;
          btnW = rect_width (env_noBtnRect env);
          btnH = rect_height (env_noBtnRect env);
          yesRect = env_yesRect env;
          (newX, newY, attempts) = sample_position rnd vw vh btnW btnH yesRect 0
      in s1\<lparr>noBtn_transition := transition_text (transitionSpeed (noEvadeAttempts s1)),
            noBtn_left := Px newX,
            noBtn_top := Px newY\<rparr>)"

definition evadeNoButton ::
  "(nat \<Rightarrow> real) \<Rightarrow> evade_env \<Rightarrow> pointer_event \<Rightarrow> evasion_state \<Rightarrow> evasion_state" where
  "evadeNoButton rnd env e s =
     (if noButtonGone s then s
      else if pointer_distance env e < detectionRadius (noEvadeAttempts s)
      then (let s1 = s\<lparr>noEvadeAttempts := noEvadeAttempts s + 1\<rparr>
            in if noEvadeAttempts s1 \<ge> MAX_EVADE_BEFORE_GONE
               then retire_button s1
               else move_button rnd env s1)
      else s)"

subsection \<open>The timer of the retirement, and the reset by the replay handler\<close>

definition fire_evasion_timer :: "evasion_state \<Rightarrow> evasion_state" where
  \<comment> \<open>the callback scheduled 400 ms after the retirement, when one is pending\<close>
  "fire_evasion_timer s =
     (case evasion_timers s of
        [] \<Rightarrow> s
      | (delay, HideNoButton) # rest \<Rightarrow>
          s\<lparr>noBtn_display := ''none'',
            noGoneMsg_text := ''Feck Aff...'',
            noGoneMsg_visible := True,
            evasion_timers := rest\<rparr>)"

definition replay_evasion :: "evasion_state \<Rightarrow> evasion_state" where
  \<comment> \<open>the statements of the replay click handler that touch the No button\<close>
  "replay_evasion s =
     s\<lparr>noEvadeAttempts := 0,
       noButtonGone := False,
       noBtn_display := [],
       noBtn_transform := [],
       noBtn_opacity := [],
       noBtn_transition := [],
       noBtn_left := Unset,
       noBtn_top := Unset,
       noBtn_evading := False,
       noGoneMsg_text := [],
       noGoneMsg_visible := False\<rparr>"

definition evasion_page_load :: evasion_state where
  "evasion_page_load =
     \<lparr>noEvadeAttempts = 0, noButtonGone = False, noBtn_display = [], noBtn_transform = [],
      noBtn_opacity = [], noBtn_transition = [], noBtn_left = Unset, noBtn_top = Unset,
      noBtn_evading = False, noGoneMsg_text = [], noGoneMsg_visible = False,
      evasion_timers = []\<rparr>"

datatype evasion_event =
    Proximity "nat \<Rightarrow> real" evade_env pointer_event
  | FireTimer
  | Replay

fun evasion_step :: "evasion_event \<Rightarrow> evasion_state \<Rightarrow> evasion_state" where
  "evasion_step (Proximity rnd env e) s = evadeNoButton rnd env e s"
| "evasion_step FireTimer s = fire_evasion_timer s"
| "evasion_step Replay s = replay_evasion s"

fun evasion_run :: "evasion_event list \<Rightarrow> evasion_state \<Rightarrow> evasion_state" where
  "evasion_run [] s = s"
| "evasion_run (ev # evs) s = evasion_run evs (evasion_step ev s)"

subsection \<open>The invariant of the state machine\<close>

definition evasion_inv :: "evasion_state \<Rightarrow> bool" where
  "evasion_inv s =
     (noEvadeAttempts s \<le> MAX_EVADE_BEFORE_GONE
      \<and> noButtonGone s = (noEvadeAttempts s = MAX_EVADE_BEFORE_GONE))"

subsection \<open>Rectangles as sets of points\<close>




subsection \<open>Sample situations\<close>

definition sample_env :: evade_env where
  \<comment> \<open>an 800 by 600 viewport, the No button at (100, 100), the Yes button at (400, 300)\<close>
  "sample_env =
     \<lparr>env_noBtnRect = \<lparr>rect_left = 100, rect_top = 100, rect_width = 80, rect_height = 40\<rparr>,
      env_yesRect = \<lparr>rect_left = 400, rect_top = 300, rect_width = 120, rect_height = 50\<rparr>,
      env_innerWidth = 800,
      env_innerHeight = 600\<rparr>"

definition crowded_env :: evade_env where
  \<comment> \<open>the Yes button covers the corner where the draws below put the No button\<close>
  "crowded_env =
     \<lparr>env_noBtnRect = \<lparr>rect_left = 100, rect_top = 100, rect_width = 80, rect_height = 40\<rparr>,
      env_yesRect = \<lparr>rect_left = 0, rect_top = 0, rect_width = 120, rect_height = 50\<rparr>,
      env_innerWidth = 800,
      env_innerHeight = 600\<rparr>"

definition on_button :: pointer_event where
  \<comment> \<open>the pointer on the centre of the No button of both situations\<close>
  "on_button = MouseEvent 140 120"

definition approach :: evasion_event where
  \<comment> \<open>a pointer move onto the button, every draw of the sampling loop being 0\<close>
  "approach = Proximity (\<lambda>n. 0) sample_env on_button"

definition eight_approaches :: "evasion_event list" where
  "eight_approaches =
     [approach, approach, approach, approach, approach, approach, approach, approach]"

section \<open>Particle animator: the confetti burst\<close>

subsection \<open>Pieces and the state of the engine\<close>

record confetti_piece =
  piece_x :: real
  piece_y :: real
  piece_w :: real
  piece_h :: real
  piece_color :: "string option"
  rotation :: real
  rotationSpeed :: real
  velocityX :: real
  velocityY :: real
  oscillateAmplitude :: real
  oscillateSpeed :: real
  phase :: real
  opacity :: real

datatype confetti_callback = SecondaryBurst

text \<open>
  The canvas has an integer size. \<open>canvas_drawn\<close> is what the canvas shows: the pieces
  drawn since it was last cleared. \<open>pending_frames\<close> holds the handles of the animation
  frames requested for \<^verbatim>\<open>animateConfetti\<close> and not yet run or cancelled;
  \<^verbatim>\<open>requestAnimationFrame\<close> issues the handles \<open>1, 2, 3, ...\<close>, counted in
  \<open>raf_counter\<close>.
\<close>

record confetti_state =
  confettiPieces :: "confetti_piece list"
  confettiAnimationId :: "nat option"
  canvas_width :: nat
  canvas_height :: nat
  canvas_drawn :: "confetti_piece list"
  pending_frames :: "nat list"
  raf_counter :: nat
  confetti_timers :: "(nat \<times> confetti_callback) list"

definition CONFETTI_COLORS :: "string list" where
  "CONFETTI_COLORS =
     [''#E63946'', ''#FF6B9D'', ''#FFB3BA'', ''#FFD6E8'',
      ''#FF4757'', ''#FF6348'', ''#FFA07A'', ''#FFFFFF'',
      ''#C2185B'', ''#F50057'', ''#FF80AB'', ''#FFCDD2'']"

definition array_get :: "'a list \<Rightarrow> nat \<Rightarrow> 'a option" where
  \<comment> \<open>\<^verbatim>\<open>arr[i]\<close>: \<^verbatim>\<open>undefined\<close> (here \<open>None\<close>) beyond the end\<close>
  "array_get arr i = (if i < length arr then Some (arr ! i) else None)"

subsection \<open>\<^verbatim>\<open>resizeConfettiCanvas\<close> and \<^verbatim>\<open>createConfettiPiece\<close>\<close>

definition resizeConfettiCanvas :: "nat \<Rightarrow> nat \<Rightarrow> confetti_state \<Rightarrow> confetti_state" where
  \<comment> \<open>the arguments are \<^verbatim>\<open>window.innerWidth\<close> and \<^verbatim>\<open>window.innerHeight\<close>;
      assigning a canvas dimension also clears the canvas\<close>
  "resizeConfettiCanvas innerWidth innerHeight s =
     s\<lparr>canvas_width := innerWidth, canvas_height := innerHeight, canvas_drawn := []\<rparr>"

definition createConfettiPiece :: "(nat \<Rightarrow> real) \<Rightarrow> nat \<Rightarrow> nat \<Rightarrow> confetti_piece" where
  \<comment> \<open>twelve draws, in the order of the object literal\<close>
  "createConfettiPiece rnd cw ch =
     \<lparr>piece_x = rnd 0 * real cw,
      piece_y = rnd 1 * real ch - real ch,
      piece_w = 6 + rnd 2 * 8,
      piece_h = 4 + rnd 3 * 6,
      piece_color = array_get CONFETTI_COLORS (nat \<lfloor>rnd 4 * real (length CONFETTI_COLORS)\<rfloor>),
      rotation = rnd 5 * 360,
      rotationSpeed = (rnd 6 - 0.5) * 10,
      velocityX = (rnd 7 - 0.5) * 4,
      velocityY = 1.5 + rnd 8 * 3,
      oscillateAmplitude = rnd 9 * 3,
      oscillateSpeed = 0.02 + rnd 10 * 0.03,
      phase = rnd 11 * pi * 2,
      opacity = 1\<rparr>"

definition seed_pieces :: "(nat \<Rightarrow> real) \<Rightarrow> nat \<Rightarrow> nat \<Rightarrow> nat \<Rightarrow> confetti_piece list" where
  \<comment> \<open>\<^verbatim>\<open>for (let i = 0; i < n; i++) confettiPieces.push(createConfettiPiece())\<close>:
      piece \<open>i\<close> reads the draws \<open>12 i\<close> to \<open>12 i + 11\<close>\<close>
  "seed_pieces rnd n cw ch =
     map (\<lambda>i. createConfettiPiece (\<lambda>j. rnd (12 * i + j)) cw ch) [0..<n]"

subsection \<open>\<^verbatim>\<open>animateConfetti\<close>: one tick\<close>

text \<open>
  The fade divides by \<^verbatim>\<open>confettiCanvas.height * 0.2\<close>. On a canvas of height 0 the
  guard \<^verbatim>\<open>piece.y > 0\<close> makes the quotient \<^verbatim>\<open>+Infinity\<close> in JavaScript, and
  \<^verbatim>\<open>Math.max(0, 1 - Infinity)\<close> is 0; HOL's \<open>x / 0 = 0\<close> would give 1 instead, so the
  case is written out.
\<close>

definition update_piece :: "nat \<Rightarrow> confetti_piece \<Rightarrow> confetti_piece" where
  "update_piece ch piece =
     (let p1 = piece\<lparr>phase := phase piece + oscillateSpeed piece\<rparr>;
          p2 = p1\<lparr>piece_x := piece_x p1 + (velocityX p1 + sin (phase p1) * oscillateAmplitude p1)\<rparr>;
          p3 = p2\<lparr>piece_y := piece_y p2 + velocityY p2\<rparr>;
          p4 = p3\<lparr>rotation := rotation p3 + rotationSpeed p3\<rparr>
      in if piece_y p4 > real ch * 0.8
         then p4\<lparr>opacity :=
                   (if real ch * 0.2 = 0 then 0
                    else max 0 (1 - (piece_y p4 - real ch * 0.8) / (real ch * 0.2)))\<rparr>
         else p4)"

definition on_screen :: "nat \<Rightarrow> confetti_piece \<Rightarrow> bool" where
  \<comment> \<open>the predicate of the \<^verbatim>\<open>filter\<close>\<close>
  "on_screen ch p = (piece_y p < real ch + 50 \<and> opacity p > 0.01)"

definition tick_pieces :: "nat \<Rightarrow> confetti_piece list \<Rightarrow> confetti_piece list" where
  "tick_pieces ch ps = filter (on_screen ch) (map (update_piece ch) ps)"

definition animateConfetti :: "confetti_state \<Rightarrow> confetti_state" where
  "animateConfetti s =
     (let s1 = s\<lparr>canvas_drawn := []\<rparr>;
          moved = map (update_piece (canvas_height s1)) (confettiPieces s1);
          s2 = s1\<lparr>confettiPieces := moved, canvas_drawn := canvas_drawn s1 @ moved\<rparr>;
          s3 = s2\<lparr>confettiPieces := filter (on_screen (canvas_height s2)) (confettiPieces s2)\<rparr>
      in if length (confettiPieces s3) > 0
         then (let handle = raf_counter s3 + 1
               in s3\<lparr>raf_counter := handle,
                     pending_frames := pending_frames s3 @ [handle],
                     confettiAnimationId := Some handle\<rparr>)
         else s3)"

definition frame_step :: "confetti_state \<Rightarrow> confetti_state" where
  \<comment> \<open>the browser runs the oldest requested frame, if there is one\<close>
  "frame_step s =
     (case pending_frames s of
        [] \<Rightarrow> s
      | handle # rest \<Rightarrow> animateConfetti (s\<lparr>pending_frames := rest\<rparr>))"

text \<open>
  The animation loop by itself: frames run for as long as one is pending. Whether that ever
  ends is a property to prove, so the loop is a partial function.
\<close>

partial_function (option) run_frames :: "confetti_state \<Rightarrow> confetti_state option" where
  "run_frames s = (if pending_frames s = [] then Some s else run_frames (frame_step s))"

subsection \<open>\<^verbatim>\<open>launchConfetti\<close>, its delayed second burst, and the replay handler\<close>

definition js_falsy :: "nat option \<Rightarrow> bool" where
  \<comment> \<open>\<^verbatim>\<open>!confettiAnimationId\<close>: true for \<^verbatim>\<open>null\<close> and for the number 0\<close>
  "js_falsy v = (case v of None \<Rightarrow> True | Some n \<Rightarrow> n = 0)"

definition launchConfetti :: "(nat \<Rightarrow> real) \<Rightarrow> nat \<Rightarrow> nat \<Rightarrow> confetti_state \<Rightarrow> confetti_state" where
  "launchConfetti rnd innerWidth innerHeight s =
     (let s1 = resizeConfettiCanvas innerWidth innerHeight s;
          s2 = s1\<lparr>confettiPieces :=
                    confettiPieces s1 @ seed_pieces rnd 150 (canvas_width s1) (canvas_height s1)\<rparr>;
          s3 = s2\<lparr>confetti_timers := confetti_timers s2 @ [(400, SecondaryBurst)]\<rparr>
      in if js_falsy (confettiAnimationId s3) then animateConfetti s3 else s3)"

definition secondary_burst :: "(nat \<Rightarrow> real) \<Rightarrow> confetti_state \<Rightarrow> confetti_state" where
  \<comment> \<open>the callback of the 400 ms timer, when one is pending\<close>
  "secondary_burst rnd s =
     (case confetti_timers s of
        [] \<Rightarrow> s
      | (delay, SecondaryBurst) # rest \<Rightarrow>
          s\<lparr>confettiPieces :=
               confettiPieces s @ seed_pieces rnd 80 (canvas_width s) (canvas_height s),
            confetti_timers := rest\<rparr>)"

definition replay_confetti :: "confetti_state \<Rightarrow> confetti_state" where
  \<comment> \<open>the statements of the replay click handler under \<^verbatim>\<open>// Clear confetti\<close>\<close>
  "replay_confetti s =
     (let s1 = s\<lparr>confettiPieces := []\<rparr>;
          s2 = s1\<lparr>canvas_drawn := []\<rparr>
      in if \<not> js_falsy (confettiAnimationId s2)
         then s2\<lparr>pending_frames := filter (\<lambda>h. Some h \<noteq> confettiAnimationId s2) (pending_frames s2),
                 confettiAnimationId := None\<rparr>
         else s2)"

definition confetti_page_load :: confetti_state where
  \<comment> \<open>after the script has run \<^verbatim>\<open>resizeConfettiCanvas()\<close> once, on a window of the given size\<close>
  "confetti_page_load =
     \<lparr>confettiPieces = [], confettiAnimationId = None, canvas_width = 0, canvas_height = 0,
      canvas_drawn = [], pending_frames = [], raf_counter = 0, confetti_timers = []\<rparr>"

datatype confetti_event =
    Launch "nat \<Rightarrow> real" nat nat
  | Secondary "nat \<Rightarrow> real"
  | Frame
  | Resize nat nat
  | ReplayConfetti

fun confetti_step :: "confetti_event \<Rightarrow> confetti_state \<Rightarrow> confetti_state" where
  "confetti_step (Launch rnd iw ih) s = launchConfetti rnd iw ih s"
| "confetti_step (Secondary rnd) s = secondary_burst rnd s"
| "confetti_step Frame s = frame_step s"
| "confetti_step (Resize iw ih) s = resizeConfettiCanvas iw ih s"
| "confetti_step ReplayConfetti s = replay_confetti s"

fun confetti_run :: "confetti_event list \<Rightarrow> confetti_state \<Rightarrow> confetti_state" where
  "confetti_run [] s = s"
| "confetti_run (ev # evs) s = confetti_run evs (confetti_step ev s)"

fun event_random_ok :: "confetti_event \<Rightarrow> bool" where
  \<comment> \<open>the draws an event consumes obey the contract of \<^verbatim>\<open>Math.random()\<close>\<close>
  "event_random_ok (Launch rnd iw ih) = valid_random rnd"
| "event_random_ok (Secondary rnd) = valid_random rnd"
| "event_random_ok ev = True"

definition falling :: "confetti_piece list \<Rightarrow> bool" where
  "falling ps = list_all (\<lambda>p. 0 < velocityY p) ps"

subsection \<open>The pieces a handler creates\<close>

fun seeds_of :: "confetti_event \<Rightarrow> confetti_state \<Rightarrow> confetti_piece list" where
  \<comment> \<open>the pieces that the handler of an event pushes, as \<^verbatim>\<open>createConfettiPiece\<close> returns them\<close>
  "seeds_of (Launch rnd iw ih) s = seed_pieces rnd 150 iw ih"
| "seeds_of (Secondary rnd) s =
     (if confetti_timers s = [] then []
      else seed_pieces rnd 80 (canvas_width s) (canvas_height s))"
| "seeds_of ev s = []"

fun all_seeds :: "confetti_event list \<Rightarrow> confetti_state \<Rightarrow> confetti_piece list" where
  "all_seeds [] s = []"
| "all_seeds (ev # evs) s = seeds_of ev s @ all_seeds evs (confetti_step ev s)"

subsection \<open>Invariants of the engine\<close>

definition frames_inv :: "confetti_state \<Rightarrow> bool" where
  "frames_inv s =
     (length (pending_frames s) \<le> 1
      \<and> (\<forall>h \<in> set (pending_frames s). confettiAnimationId s = Some h \<and> 0 < h))"

definition confetti_inv :: "confetti_state \<Rightarrow> bool" where
  "confetti_inv s = (falling (confettiPieces s) \<and> frames_inv s)"

subsection \<open>A sample burst\<close>

definition still_piece :: confetti_piece where
  \<comment> \<open>the piece created on a 1 by 1 canvas when every draw is 0\<close>
  "still_piece = createConfettiPiece (\<lambda>j. 0) 1 1"

definition tiny_burst :: confetti_state where
  \<comment> \<open>the state right after the Yes click on a 1 by 1 window, every draw being 0\<close>
  "tiny_burst = confetti_run [Launch (\<lambda>n. 0) 1 1] confetti_page_load"

definition after_relaunch :: "confetti_event list" where
  \<comment> \<open>what follows a second launch: its delayed burst, frames, a resize, a third launch\<close>
  "after_relaunch =
     [Secondary (\<lambda>n. 0), Frame, Resize 2 2, Frame, Launch (\<lambda>n. 0) 2 2, Frame]"

section \<open>Text revealer: the typewriter\<close>

subsection \<open>Segments of a line\<close>

text \<open>
  \<^verbatim>\<open>typeHTMLContent\<close> first cuts the markup of a line into tags, which appear at once,
  and single characters, which are typed. A string is a list of code units.
\<close>

datatype segment = TagSeg string | CharSeg char

definition indexOf :: "string \<Rightarrow> char \<Rightarrow> nat \<Rightarrow> nat option" where
  \<comment> \<open>\<^verbatim>\<open>html.indexOf(ch, i)\<close>; \<open>None\<close> stands for \<^verbatim>\<open>-1\<close>\<close>
  "indexOf html ch i =
     (let k = length (takeWhile (\<lambda>x. x \<noteq> ch) (drop i html))
      in if i + k < length html then Some (i + k) else None)"

definition substring :: "string \<Rightarrow> nat \<Rightarrow> nat \<Rightarrow> string" where
  \<comment> \<open>\<^verbatim>\<open>html.substring(a, b)\<close> for \<open>a \<le> b\<close>\<close>
  "substring html a b = take (b - a) (drop a html)"

function parse_loop :: "string \<Rightarrow> nat \<Rightarrow> segment list \<Rightarrow> segment list" where
  "parse_loop html i segs =
     (if i < length html
      then (if html ! i = CHR ''<''
            then (case indexOf html (CHR ''>'') i of
                    Some tagEnd \<Rightarrow>
                      parse_loop html (tagEnd + 1) (segs @ [TagSeg (substring html i (tagEnd + 1))])
                  | None \<Rightarrow> parse_loop html (i + 1) (segs @ [CharSeg (html ! i)]))
            else parse_loop html (i + 1) (segs @ [CharSeg (html ! i)]))
      else segs)"
  by pat_completeness auto
termination
  by (relation "measure (\<lambda>(html, i, segs). length html - i)")
     (auto simp: indexOf_def Let_def split: if_splits)

declare parse_loop.simps [simp del]

definition parse_segments :: "string \<Rightarrow> segment list" where
  "parse_segments html = parse_loop html 0 []"

subsection \<open>Lines, reveals and pending callbacks\<close>

record tw_line =
  line_innerHTML :: string
  line_cursor :: bool
  line_active :: bool
  line_instant_attr :: bool

record tw_original =
  orig_el :: nat
  originalHTML :: string
  isInstant :: bool

datatype on_complete = ShowReplayButton

text \<open>
  The closure variables of one \<^verbatim>\<open>startTypewriter\<close> call (\<open>tw_run\<close>) and of one
  \<^verbatim>\<open>typeHTMLContent\<close> call (\<open>tw_typing\<close>). A reveal is a chain: each callback schedules
  at most one successor, so the variables travel with the pending callback. An element is
  named by its position among the \<^verbatim>\<open>.typewriter-line\<close> elements. The \<^verbatim>\<open>onDone\<close>
  argument of \<^verbatim>\<open>typeHTMLContent\<close> is always \<^verbatim>\<open>() => setTimeout(typeNextLine, 400)\<close>
  of the calling reveal.
\<close>

record tw_run =
  run_signal :: nat
  lineData :: "tw_original list"
  currentLineIdx :: nat
  onComplete :: "on_complete option"

record tw_typing =
  typing_el :: nat
  segments :: "segment list"
  built :: string
  segIdx :: nat

datatype tw_callback = TypeNextLine tw_run | TypeNext tw_run tw_typing

text \<open>
  Abort controllers are numbered in the order of their creation; \<open>aborted_signals\<close> holds
  those whose \<^verbatim>\<open>signal.aborted\<close> is true. \<open>replayBtn_hidden\<close> is the class
  \<^verbatim>\<open>hidden\<close> of the replay button, which the completion callback removes.
\<close>

record typewriter_state =
  tw_lines :: "tw_line list"
  typewriterOriginals :: "tw_original list"
  typewriterAbortController :: "nat option"
  aborted_signals :: "nat set"
  controllers_made :: nat
  tw_timers :: "(real \<times> tw_callback) list"
  replayBtn_hidden :: bool

definition set_innerHTML :: "nat \<Rightarrow> string \<Rightarrow> typewriter_state \<Rightarrow> typewriter_state" where
  \<comment> \<open>\<^verbatim>\<open>el.innerHTML = html\<close> replaces the children, the cursor among them\<close>
  "set_innerHTML el html s =
     s\<lparr>tw_lines := (tw_lines s)[el := (tw_lines s ! el)\<lparr>line_innerHTML := html, line_cursor := False\<rparr>]\<rparr>"

definition appendCursor :: "nat \<Rightarrow> typewriter_state \<Rightarrow> typewriter_state" where
  "appendCursor el s =
     s\<lparr>tw_lines := (tw_lines s)[el := (tw_lines s ! el)\<lparr>line_cursor := True\<rparr>]\<rparr>"

definition set_active :: "nat \<Rightarrow> bool \<Rightarrow> typewriter_state \<Rightarrow> typewriter_state" where
  \<comment> \<open>\<^verbatim>\<open>classList.add('typewriter-active')\<close> and \<^verbatim>\<open>classList.remove(...)\<close>\<close>
  "set_active el b s =
     s\<lparr>tw_lines := (tw_lines s)[el := (tw_lines s ! el)\<lparr>line_active := b\<rparr>]\<rparr>"

definition tw_setTimeout :: "tw_callback \<Rightarrow> real \<Rightarrow> typewriter_state \<Rightarrow> typewriter_state" where
  "tw_setTimeout cb delay s = s\<lparr>tw_timers := tw_timers s @ [(delay, cb)]\<rparr>"

definition load_originals :: "typewriter_state \<Rightarrow> typewriter_state" where
  \<comment> \<open>the \<^verbatim>\<open>DOMContentLoaded\<close> handler that fills \<^verbatim>\<open>typewriterOriginals\<close>\<close>
  "load_originals s =
     s\<lparr>typewriterOriginals :=
         typewriterOriginals s @
           map (\<lambda>i. \<lparr>orig_el = i,
                      originalHTML = line_innerHTML (tw_lines s ! i),
                      isInstant = line_instant_attr (tw_lines s ! i)\<rparr>)
               [0..<length (tw_lines s)]\<rparr>"

subsection \<open>\<^verbatim>\<open>typeHTMLContent\<close> and its \<^verbatim>\<open>typeNext\<close>\<close>

definition BASE_SPEED :: real where
  "BASE_SPEED = 30"

definition punctuation :: string where
  "punctuation = ''.!?,;:''"

function typeNext ::
  "(nat \<Rightarrow> real) \<Rightarrow> tw_run \<Rightarrow> tw_typing \<Rightarrow> typewriter_state \<Rightarrow> typewriter_state" where
  "typeNext rnd run t s =
     (if run_signal run \<in> aborted_signals s then s
      else if segIdx t \<ge> length (segments t)
      then tw_setTimeout (TypeNextLine run) 400 (set_innerHTML (typing_el t) (built t) s)
      else (case segments t ! segIdx t of
              TagSeg content \<Rightarrow>
                typeNext rnd run (t\<lparr>segIdx := segIdx t + 1, built := built t @ content\<rparr>) s
            | CharSeg c \<Rightarrow>
                (let t2 = t\<lparr>segIdx := segIdx t + 1, built := built t @ [c]\<rparr>;
                     s1 = set_innerHTML (typing_el t2) (built t2) s;
                     s2 = appendCursor (typing_el t2) s1;
                     delay = BASE_SPEED + rnd 0 * 20;
                     delay' = (if c \<in> set punctuation then delay + 120 else delay)
                 in tw_setTimeout (TypeNext run t2) delay' s2)))"
  by pat_completeness auto
termination
  by (relation "measure (\<lambda>(rnd, run, t, s). length (segments t) - segIdx t)") auto

declare typeNext.simps [simp del]

definition typeHTMLContent ::
  "nat \<Rightarrow> string \<Rightarrow> tw_run \<Rightarrow> typewriter_state \<Rightarrow> typewriter_state" where
  "typeHTMLContent el html run s =
     (let t = \<lparr>typing_el = el, segments = parse_segments html, built = [], segIdx = 0\<rparr>;
          s1 = set_innerHTML el [] s;
          s2 = appendCursor el s1
      in tw_setTimeout (TypeNext run t) 200 s2)"

subsection \<open>\<^verbatim>\<open>startTypewriter\<close> and its \<^verbatim>\<open>typeNextLine\<close>\<close>

definition run_onComplete :: "on_complete option \<Rightarrow> typewriter_state \<Rightarrow> typewriter_state" where
  \<comment> \<open>\<^verbatim>\<open>if (onComplete) onComplete()\<close>; the one callback in use shows the replay button\<close>
  "run_onComplete oc s =
     (case oc of None \<Rightarrow> s | Some ShowReplayButton \<Rightarrow> s\<lparr>replayBtn_hidden := False\<rparr>)"

definition typeNextLine :: "tw_run \<Rightarrow> typewriter_state \<Rightarrow> typewriter_state" where
  "typeNextLine run s =
     (if run_signal run \<in> aborted_signals s then s
      else if currentLineIdx run \<ge> length (lineData run) then run_onComplete (onComplete run) s
      else (let data = lineData run ! currentLineIdx run;
                run1 = run\<lparr>currentLineIdx := currentLineIdx run + 1\<rparr>
            in if isInstant data
               then tw_setTimeout (TypeNextLine run1) 300
                      (set_innerHTML (orig_el data) (originalHTML data) s)
               else typeHTMLContent (orig_el data) (originalHTML data) run1 s))"

definition clear_line :: "tw_original \<Rightarrow> typewriter_state \<Rightarrow> typewriter_state" where
  \<comment> \<open>the body of the \<^verbatim>\<open>map\<close> callback of \<^verbatim>\<open>startTypewriter\<close>\<close>
  "clear_line orig s = set_active (orig_el orig) True (set_innerHTML (orig_el orig) [] s)"

definition startTypewriter :: "on_complete option \<Rightarrow> typewriter_state \<Rightarrow> typewriter_state" where
  "startTypewriter oc s =
     (let c = controllers_made s;
          s1 = s\<lparr>typewriterAbortController := Some c,
                 controllers_made := c + 1,
                 aborted_signals := aborted_signals s - {c}\<rparr>;
          s2 = fold clear_line (typewriterOriginals s1) s1;
          run = \<lparr>run_signal = c, lineData = typewriterOriginals s1, currentLineIdx = 0,
                 onComplete = oc\<rparr>
      in typeNextLine run s2)"

subsection \<open>\<^verbatim>\<open>resetTypewriter\<close>\<close>

definition abort_controller :: "typewriter_state \<Rightarrow> typewriter_state" where
  \<comment> \<open>\<^verbatim>\<open>if (typewriterAbortController) { typewriterAbortController.abort(); typewriterAbortController = null; }\<close>\<close>
  "abort_controller s =
     (case typewriterAbortController s of
        None \<Rightarrow> s
      | Some c \<Rightarrow> s\<lparr>aborted_signals := insert c (aborted_signals s),
                     typewriterAbortController := None\<rparr>)"

definition restore_line :: "tw_original \<Rightarrow> typewriter_state \<Rightarrow> typewriter_state" where
  "restore_line orig s =
     set_active (orig_el orig) False (set_innerHTML (orig_el orig) (originalHTML orig) s)"

definition resetTypewriter :: "typewriter_state \<Rightarrow> typewriter_state" where
  "resetTypewriter s =
     (let s1 = abort_controller s
      in fold restore_line (typewriterOriginals s1) s1)"

subsection \<open>Firing timers\<close>

definition fire_tw :: "nat \<Rightarrow> (nat \<Rightarrow> real) \<Rightarrow> typewriter_state \<Rightarrow> typewriter_state" where
  \<comment> \<open>the \<open>i\<close>-th pending callback runs, reading its draws from \<open>rnd\<close>; the order in which
      pending callbacks run is left open\<close>
  "fire_tw i rnd s =
     (if i < length (tw_timers s)
      then (let s1 = s\<lparr>tw_timers := take i (tw_timers s) @ drop (Suc i) (tw_timers s)\<rparr>
            in case snd (tw_timers s ! i) of
                 TypeNextLine run \<Rightarrow> typeNextLine run s1
               | TypeNext run t \<Rightarrow> typeNext rnd run t s1)
      else s)"

fun fire_all :: "(nat \<times> (nat \<Rightarrow> real)) list \<Rightarrow> typewriter_state \<Rightarrow> typewriter_state" where
  "fire_all [] s = s"
| "fire_all ((i, rnd) # fs) s = fire_all fs (fire_tw i rnd s)"

fun cb_signal :: "tw_callback \<Rightarrow> nat" where
  "cb_signal (TypeNextLine run) = run_signal run"
| "cb_signal (TypeNext run t) = run_signal run"

definition in_flight :: "typewriter_state \<Rightarrow> nat list" where
  \<comment> \<open>the reveals that still have a pending callback which would do work: their signals\<close>
  "in_flight s =
     remdups (filter (\<lambda>c. c \<notin> aborted_signals s) (map (\<lambda>(d, cb). cb_signal cb) (tw_timers s)))"

definition only_current_live :: "typewriter_state \<Rightarrow> bool" where
  \<comment> \<open>every reveal in flight is the one the controller variable refers to\<close>
  "only_current_live s = list_all (\<lambda>c. typewriterAbortController s = Some c) (in_flight s)"

definition all_aborted :: "typewriter_state \<Rightarrow> bool" where
  \<comment> \<open>every pending callback belongs to an aborted reveal\<close>
  "all_aborted s = list_all (\<lambda>(d, cb). cb_signal cb \<in> aborted_signals s) (tw_timers s)"

subsection \<open>Bookkeeping of reveals\<close>

definition live_timers :: "typewriter_state \<Rightarrow> (real \<times> tw_callback) list" where
  \<comment> \<open>the pending callbacks that would still do work\<close>
  "live_timers t = filter (\<lambda>(d, cb). cb_signal cb \<notin> aborted_signals t) (tw_timers t)"

definition tw_inv :: "typewriter_state \<Rightarrow> bool" where
  "tw_inv t =
     (list_all (\<lambda>(d, cb). cb_signal cb < controllers_made t) (tw_timers t)
      \<and> length (live_timers t) \<le> 1
      \<and> list_all (\<lambda>(d, cb). typewriterAbortController t = Some (cb_signal cb)) (live_timers t))"

definition same_control :: "typewriter_state \<Rightarrow> typewriter_state \<Rightarrow> bool" where
  "same_control s s' =
     (aborted_signals s' = aborted_signals s
      \<and> typewriterAbortController s' = typewriterAbortController s
      \<and> controllers_made s' = controllers_made s)"

definition adds_one :: "nat \<Rightarrow> typewriter_state \<Rightarrow> typewriter_state \<Rightarrow> bool" where
  "adds_one c s s' =
     (same_control s s' \<and> replayBtn_hidden s' = replayBtn_hidden s
      \<and> (\<exists>d cb. tw_timers s' = tw_timers s @ [(d, cb)] \<and> cb_signal cb = c))"

definition completes :: "typewriter_state \<Rightarrow> typewriter_state \<Rightarrow> bool" where
  \<comment> \<open>the reveal ends: nothing is scheduled, the completion callback may show the button\<close>
  "completes s s' =
     (same_control s s' \<and> tw_timers s' = tw_timers s
      \<and> (replayBtn_hidden s' = replayBtn_hidden s \<or> \<not> replayBtn_hidden s'))"

definition fire_outcome :: "typewriter_state \<Rightarrow> typewriter_state \<Rightarrow> bool" where
  "fire_outcome t t' =
     (tw_inv t' \<and> same_control t t'
      \<and> (if live_timers t = []
          then live_timers t' = [] \<and> replayBtn_hidden t' = replayBtn_hidden t
          else replayBtn_hidden t' = replayBtn_hidden t
             \<or> (\<not> replayBtn_hidden t' \<and> live_timers t' = [])))"

definition fix_line :: "tw_original \<Rightarrow> tw_line \<Rightarrow> tw_line" where
  \<comment> \<open>what \<^verbatim>\<open>resetTypewriter\<close> makes of the element of an original\<close>
  "fix_line orig l = l\<lparr>line_innerHTML := originalHTML orig, line_cursor := False, line_active := False\<rparr>"

definition restore_lines :: "tw_original \<Rightarrow> tw_line list \<Rightarrow> tw_line list" where
  \<comment> \<open>the effect of \<open>restore_line\<close> on the list of elements\<close>
  "restore_lines orig ls = ls[orig_el orig := fix_line orig (ls ! orig_el orig)]"

subsection \<open>A sample letter\<close>

definition sample_letter :: typewriter_state where
  \<comment> \<open>one typed line and one instant divider, as the page holds them before the script runs\<close>
  "sample_letter =
     \<lparr>tw_lines =
        [\<lparr>line_innerHTML = ''Hi, <b>there</b>.'', line_cursor = False, line_active = False,
          line_instant_attr = False\<rparr>,
         \<lparr>line_innerHTML = ''<hr>'', line_cursor = False, line_active = False,
          line_instant_attr = True\<rparr>],
      typewriterOriginals = [],
      typewriterAbortController = None,
      aborted_signals = {},
      controllers_made = 0,
      tw_timers = [],
      replayBtn_hidden = True\<rparr>"

definition zero_draws :: "nat \<Rightarrow> real" where
  "zero_draws n = 0"

definition two_chars_typed :: typewriter_state where
  \<comment> \<open>the reveal has started and its timer has fired twice, typing \<^verbatim>\<open>H\<close> and
      \<^verbatim>\<open>i\<close>\<close>
  "two_chars_typed =
     fire_all [(0, zero_draws), (0, zero_draws)]
       (startTypewriter (Some ShowReplayButton) (load_originals sample_letter))"

definition started_twice :: typewriter_state where
  \<comment> \<open>\<^verbatim>\<open>startTypewriter\<close> called twice in a row on the sample letter: the first reveal
      (signal 0) and the second (signal 1) each have their start timer pending\<close>
  "started_twice = startTypewriter None (startTypewriter None (load_originals sample_letter))"

section \<open>The remaining subsystems and the page as a whole\<close>

subsection \<open>Stage controller: \<^verbatim>\<open>showPage\<close>\<close>

datatype page = CAPTCHA | PROPOSAL | CONGRATS

text \<open>
  \<^verbatim>\<open>showPage\<close> removes the class \<^verbatim>\<open>active\<close> from every page at once and adds it to the
  target two animation frames later: the outer frame requests the inner one.
\<close>

datatype page_frame = OuterFrame page | InnerFrame page

record pages_state =
  currentPage :: page
  active_pages :: "page set"
  page_frames :: "page_frame list"

definition showPage :: "page \<Rightarrow> pages_state \<Rightarrow> pages_state" where
  "showPage pageId s =
     (let s1 = s\<lparr>active_pages := {}\<rparr>;
          s2 = s1\<lparr>page_frames := page_frames s1 @ [OuterFrame pageId]\<rparr>
      in s2\<lparr>currentPage := pageId\<rparr>)"

definition fire_page_frame :: "pages_state \<Rightarrow> pages_state" where
  "fire_page_frame s =
     (case page_frames s of
        [] \<Rightarrow> s
      | OuterFrame p # rest \<Rightarrow> s\<lparr>page_frames := rest @ [InnerFrame p]\<rparr>
      | InnerFrame p # rest \<Rightarrow> s\<lparr>page_frames := rest, active_pages := insert p (active_pages s)\<rparr>)"

subsection \<open>Floating hearts\<close>

record heart =
  heart_emoji :: nat
  heart_left :: real
  heart_duration :: real
  heart_delay :: real
  heart_size :: real

record hearts_state =
  heartInterval :: "nat option"
  heartsContainer :: "heart list"
  hearts_intervals :: "nat list"

definition stopFloatingHearts :: "hearts_state \<Rightarrow> hearts_state" where
  "stopFloatingHearts s =
     (if \<not> js_falsy (heartInterval s)
      then s\<lparr>hearts_intervals := filter (\<lambda>h. Some h \<noteq> heartInterval s) (hearts_intervals s),
             heartInterval := None\<rparr>
      else s)"

definition replay_hearts :: "hearts_state \<Rightarrow> hearts_state" where
  \<comment> \<open>\<^verbatim>\<open>stopFloatingHearts(); heartsContainer.innerHTML = '';\<close>\<close>
  "replay_hearts s = (stopFloatingHearts s)\<lparr>heartsContainer := []\<rparr>"

subsection \<open>Starfield\<close>

record star =
  star_x :: real
  star_y :: real
  star_radius :: real
  star_baseAlpha :: real
  star_alpha :: real
  star_twinkleSpeed :: real
  star_phase :: real
  star_hue :: real
  star_saturation :: real

record starfield_state =
  starAnimId :: "nat option"
  stars :: "star list"
  starfield_drawn :: "star list"
  star_frames :: "nat list"

definition stopStarfield :: "starfield_state \<Rightarrow> starfield_state" where
  "stopStarfield s =
     (let s1 = (if \<not> js_falsy (starAnimId s)
                then s\<lparr>star_frames := filter (\<lambda>h. Some h \<noteq> starAnimId s) (star_frames s),
                       starAnimId := None\<rparr>
                else s);
          s2 = s1\<lparr>stars := []\<rparr>
      in s2\<lparr>starfield_drawn := []\<rparr>)"

subsection \<open>Side galleries\<close>

datatype side = LeftSide | RightSide

datatype gallery_callback = StartRightGallery

text \<open>
  A track is the list of its slides, each with or without the class \<^verbatim>\<open>active\<close>; a track
  element that the page lacks is \<open>None\<close>. \<^verbatim>\<open>setInterval\<close> issues the identifiers
  \<open>1, 2, 3, ...\<close>.
\<close>

record gallery_state =
  row_hidden :: bool
  left_track :: "bool list option"
  right_track :: "bool list option"
  leftSlideIdx :: nat
  rightSlideIdx :: nat
  leftAutoPlayId :: "nat option"
  rightAutoPlayId :: "nat option"
  gallery_intervals :: "(nat \<times> side) list"
  gallery_timers :: "(nat \<times> gallery_callback) list"
  interval_counter :: nat

definition stopSideGalleries :: "gallery_state \<Rightarrow> gallery_state" where
  "stopSideGalleries s =
     (let s1 = (if \<not> js_falsy (leftAutoPlayId s)
                then s\<lparr>gallery_intervals :=
                         filter (\<lambda>(h, sd). Some h \<noteq> leftAutoPlayId s) (gallery_intervals s),
                       leftAutoPlayId := None\<rparr>
                else s)
      in if \<not> js_falsy (rightAutoPlayId s1)
         then s1\<lparr>gallery_intervals :=
                   filter (\<lambda>(h, sd). Some h \<noteq> rightAutoPlayId s1) (gallery_intervals s1),
                 rightAutoPlayId := None\<rparr>
         else s1)"

definition startSideGalleries :: "gallery_state \<Rightarrow> gallery_state" where
  "startSideGalleries s =
     (let s1 = stopSideGalleries s;
          h = interval_counter s1 + 1;
          s2 = s1\<lparr>interval_counter := h,
                  gallery_intervals := gallery_intervals s1 @ [(h, LeftSide)],
                  leftAutoPlayId := Some h\<rparr>
      in s2\<lparr>gallery_timers := gallery_timers s2 @ [(2000, StartRightGallery)]\<rparr>)"

definition showGallery :: "gallery_state \<Rightarrow> gallery_state" where
  "showGallery s = startSideGalleries (s\<lparr>row_hidden := False\<rparr>)"

definition first_slide_only :: "bool list option \<Rightarrow> bool list option" where
  \<comment> \<open>\<^verbatim>\<open>if (!track) return; slides.forEach((s, i) => s.classList.toggle('active', i === 0))\<close>\<close>
  "first_slide_only track =
     (case track of
        None \<Rightarrow> None
      | Some slides \<Rightarrow> Some (map (\<lambda>i. i = 0) [0..<length slides]))"

definition resetGallery :: "gallery_state \<Rightarrow> gallery_state" where
  "resetGallery s =
     (let s1 = stopSideGalleries s;
          s2 = s1\<lparr>row_hidden := True\<rparr>;
          s3 = s2\<lparr>left_track := first_slide_only (left_track s2),
                  right_track := first_slide_only (right_track s2)\<rparr>
      in s3\<lparr>leftSlideIdx := 0, rightSlideIdx := 0\<rparr>)"

subsection \<open>The envelope\<close>

datatype envelope_callback = RevealCard | StartTyping

record envelope_state =
  envelopeOpened :: bool
  wrapper_opened :: bool
  wrapper_revealed :: bool
  prompt_hidden :: bool
  card_revealing :: bool
  envelope_timers :: "(nat \<times> envelope_callback) list"

definition replay_envelope :: "envelope_state \<Rightarrow> envelope_state" where
  \<comment> \<open>the statements of the replay click handler under \<^verbatim>\<open>// Reset envelope state\<close>\<close>
  "replay_envelope s =
     s\<lparr>envelopeOpened := False,
       wrapper_opened := False,
       wrapper_revealed := False,
       prompt_hidden := False,
       card_revealing := False\<rparr>"

subsection \<open>The whole page\<close>

record app_state =
  captcha :: captcha_state
  evasion :: evasion_state
  confetti :: confetti_state
  typewriter :: typewriter_state
  envelope :: envelope_state
  gallery :: gallery_state
  starfield :: starfield_state
  hearts :: hearts_state
  pages :: pages_state

definition openEnvelope :: "app_state \<Rightarrow> app_state" where
  "openEnvelope s =
     (if envelopeOpened (envelope s) then s
      else s\<lparr>envelope := (envelope s)
               \<lparr>envelopeOpened := True,
                wrapper_opened := True,
                envelope_timers := envelope_timers (envelope s) @ [(900, RevealCard)]\<rparr>\<rparr>)"

definition run_envelope_callback :: "envelope_callback \<Rightarrow> app_state \<Rightarrow> app_state" where
  "run_envelope_callback cb s =
     (case cb of
        RevealCard \<Rightarrow>
          s\<lparr>envelope := (envelope s)
               \<lparr>prompt_hidden := True,
                wrapper_revealed := True,
                card_revealing := True,
                envelope_timers := envelope_timers (envelope s) @ [(600, StartTyping)]\<rparr>,
            gallery := showGallery (gallery s)\<rparr>
      | StartTyping \<Rightarrow>
          s\<lparr>typewriter := startTypewriter (Some ShowReplayButton) (typewriter s)\<rparr>)"

definition fire_envelope_timer :: "app_state \<Rightarrow> app_state" where
  \<comment> \<open>the two timers of \<^verbatim>\<open>openEnvelope\<close> have fixed delays, so the oldest fires first\<close>
  "fire_envelope_timer s =
     (case envelope_timers (envelope s) of
        [] \<Rightarrow> s
      | (delay, cb) # rest \<Rightarrow>
          run_envelope_callback cb (s\<lparr>envelope := (envelope s)\<lparr>envelope_timers := rest\<rparr>\<rparr>))"

definition replay_captcha :: "captcha_state \<Rightarrow> captcha_state" where
  \<comment> \<open>the statements of the replay click handler on the challenge, before the grid is rebuilt\<close>
  "replay_captcha s =
     s\<lparr>failureCount := 0,
       selectedCells := {},
       container_transition := [],
       container_transform := [],
       container_opacity := [],
       captchaError_visible := False,
       captchaHint_visible := False\<rparr>"

text \<open>
  The click handler of the replay button. Its statements are grouped by the subsystem they
  act on; statements on different subsystems act on different variables and elements, so the
  grouping does not change the result. Within a subsystem the order of the source is kept:
  the button is hidden before \<^verbatim>\<open>resetTypewriter\<close>, the counters of the challenge are
  cleared before \<^verbatim>\<open>initCaptchaGrid\<close>.
\<close>

definition replay :: "(nat \<Rightarrow> real) \<Rightarrow> app_state \<Rightarrow> app_state" where
  "replay rnd s =
     s\<lparr>typewriter := resetTypewriter ((typewriter s)\<lparr>replayBtn_hidden := True\<rparr>),
       captcha := initCaptchaGrid rnd (replay_captcha (captcha s)),
       evasion := replay_evasion (evasion s),
       envelope := replay_envelope (envelope s),
       gallery := resetGallery (gallery s),
       starfield := stopStarfield (starfield s),
       confetti := replay_confetti (confetti s),
       hearts := replay_hearts (hearts s),
       pages := showPage CAPTCHA (pages s)\<rparr>"

subsection \<open>Events of the celebration page\<close>

text \<open>
  The events that reach the envelope and the typewriter: a click on the envelope, the firing
  of an envelope timer, the firing of a typewriter timer, and a click on the replay button.
  The replay button carries the class \<^verbatim>\<open>hidden\<close> from the page's markup until a reveal
  completes, and again from each click on it; that a click reaches the button only while the
  class is absent is a property of the style sheet, assumed here. The handlers of the other
  subsystems touch neither the typewriter nor the envelope.
\<close>

datatype app_event =
    EnvelopeClick
  | EnvelopeTimer
  | TypewriterTimer nat "nat \<Rightarrow> real"
  | ReplayClick "nat \<Rightarrow> real"

fun app_step :: "app_event \<Rightarrow> app_state \<Rightarrow> app_state" where
  "app_step EnvelopeClick s = openEnvelope s"
| "app_step EnvelopeTimer s = fire_envelope_timer s"
| "app_step (TypewriterTimer i rnd) s = s\<lparr>typewriter := fire_tw i rnd (typewriter s)\<rparr>"
| "app_step (ReplayClick rnd) s =
     (if replayBtn_hidden (typewriter s) then s else replay rnd s)"

fun app_run :: "app_event list \<Rightarrow> app_state \<Rightarrow> app_state" where
  "app_run [] s = s"
| "app_run (ev # evs) s = app_run evs (app_step ev s)"

definition page_load_ok :: "app_state \<Rightarrow> bool" where
  \<comment> \<open>the initial values of the script's variables, no timer pending, the replay button hidden\<close>
  "page_load_ok s =
     (\<not> envelopeOpened (envelope s)
      \<and> envelope_timers (envelope s) = []
      \<and> tw_timers (typewriter s) = []
      \<and> typewriterAbortController (typewriter s) = None
      \<and> replayBtn_hidden (typewriter s))"

definition celebration_inv :: "app_state \<Rightarrow> bool" where
  \<comment> \<open>what every reachable state of the celebration page satisfies\<close>
  "celebration_inv s =
     (tw_inv (typewriter s)
      \<and> length (envelope_timers (envelope s)) \<le> 1
      \<and> (envelope_timers (envelope s) = [] \<or> live_timers (typewriter s) = [])
      \<and> ((envelope_timers (envelope s) = [] \<and> live_timers (typewriter s) = [])
           \<or> (envelopeOpened (envelope s) \<and> replayBtn_hidden (typewriter s)))
      \<and> (envelopeOpened (envelope s) \<or> replayBtn_hidden (typewriter s)))"

subsection \<open>A sample page\<close>

definition sample_app :: app_state where
  "sample_app =
     \<lparr>captcha = captcha_page_load,
      evasion = evasion_page_load,
      confetti = confetti_page_load,
      typewriter = load_originals sample_letter,
      envelope = \<lparr>envelopeOpened = False, wrapper_opened = False, wrapper_revealed = False,
                   prompt_hidden = False, card_revealing = False, envelope_timers = []\<rparr>,
      gallery = \<lparr>row_hidden = True, left_track = Some [True, False, False],
                  right_track = Some [True, False], leftSlideIdx = 0, rightSlideIdx = 0,
                  leftAutoPlayId = None, rightAutoPlayId = None, gallery_intervals = [],
                  gallery_timers = [], interval_counter = 0\<rparr>,
      starfield = \<lparr>starAnimId = None, stars = [], starfield_drawn = [], star_frames = []\<rparr>,
      hearts = \<lparr>heartInterval = None, heartsContainer = [], hearts_intervals = []\<rparr>,
      pages = \<lparr>currentPage = CAPTCHA, active_pages = {CAPTCHA}, page_frames = []\<rparr>\<rparr>"

definition half_draws :: "nat \<Rightarrow> real" where
  "half_draws n = 1 / 2"

definition typing_started :: "app_event list" where
  \<comment> \<open>the envelope is clicked and both of its timers fire\<close>
  "typing_started = [EnvelopeClick, EnvelopeTimer, EnvelopeTimer]"

chapter \<open>Properties\<close>

section \<open>Properties of the selection challenge\<close>

lemma catalog_length: "length CAPTCHA_IMAGES = 9"
  by (simp add: CAPTCHA_IMAGES_def)

lemma catalog_targets: "length (filter isTarget CAPTCHA_IMAGES) = 4"
  by (simp add: CAPTCHA_IMAGES_def)

lemma catalog_distractors: "length (filter (\<lambda>im. \<not> isTarget im) CAPTCHA_IMAGES) = 5"
  by (simp add: CAPTCHA_IMAGES_def)

text \<open>
  Claim C4, as the specification states it: the catalog has 9 items, exactly 5 targets and
  exactly 4 distractors. The table in the script has four entries flagged true
  (\<^verbatim>\<open>boyfriend-1\<close> to \<^verbatim>\<open>boyfriend-4\<close>) and five flagged false (\<^verbatim>\<open>other-1\<close> to
  \<^verbatim>\<open>other-5\<close>), so the stated split does not hold.
\<close>

theorem catalog_five_four_counterexample:
  "\<not> (length CAPTCHA_IMAGES = 9
      \<and> length (filter isTarget CAPTCHA_IMAGES) = 5
      \<and> length (filter (\<lambda>im. \<not> isTarget im) CAPTCHA_IMAGES) = 4)"
  by (simp add: catalog_targets)

text \<open>
  Claim C4, amended: the fixed catalog consumed by the selection challenge consists of
  exactly 9 items, of which exactly 4 carry \<open>isTarget = true\<close> and exactly 5 carry
  \<open>isTarget = false\<close>.
\<close>

theorem catalog_counts:
  "length CAPTCHA_IMAGES = 9
   \<and> length (filter isTarget CAPTCHA_IMAGES) = 4
   \<and> length (filter (\<lambda>im. \<not> isTarget im) CAPTCHA_IMAGES) = 5"
  by (simp add: catalog_length catalog_targets catalog_distractors)

lemma digit_val_digit_char: "d < 10 \<Longrightarrow> digit_val (digit_char d) = d"
  by (simp add: digit_val_def digit_char_def)

lemma is_digit_digit_char: "d < 10 \<Longrightarrow> is_digit (digit_char d)"
  by (simp add: is_digit_def digit_char_def)

lemma number_toString_digits: "\<forall>c \<in> set (number_toString n). is_digit c"
proof (induction n rule: number_toString.induct)
  case (1 n)
  show ?case
  proof (cases "n < 10")
    case True
    then show ?thesis by (simp add: number_toString.simps[of n] is_digit_digit_char)
  next
    case False
    then show ?thesis using 1 by (simp add: number_toString.simps[of n] is_digit_digit_char)
  qed
qed

lemma number_toString_nonempty: "number_toString n \<noteq> []"
  by (subst number_toString.simps) simp

lemma number_toString_value:
  "fold (\<lambda>c acc. acc * 10 + digit_val c) (number_toString n) 0 = n"
proof (induction n rule: number_toString.induct)
  case (1 n)
  show ?case
  proof (cases "n < 10")
    case True
    then show ?thesis by (simp add: number_toString.simps[of n] digit_val_digit_char)
  next
    case False
    then show ?thesis using 1 by (simp add: number_toString.simps[of n] digit_val_digit_char)
  qed
qed

lemma parseInt_number_toString: "parseInt (number_toString n) = Some n"
proof -
  have tw: "takeWhile is_digit (number_toString n) = number_toString n"
    by (simp add: number_toString_digits)
  show ?thesis
    unfolding parseInt_def Let_def tw
    by (simp add: number_toString_nonempty number_toString_value)
qed

lemma boolean_toString_true: "(boolean_toString b = ''true'') = b"
  by (simp add: boolean_toString_def)

lemma allCorrect_fold:
  "fold (check_cell sel) cells b
   = (b \<and> (\<forall>c \<in> set cells. check_cell sel c True))"
  by (induction cells arbitrary: b) (auto simp: check_cell_def Let_def)

lemma allCorrect_iff: "allCorrect cells sel = (\<forall>c \<in> set cells. check_cell sel c True)"
  by (simp add: allCorrect_def allCorrect_fold)

lemma check_cell_make_cell: "check_cell sel (make_cell im i) True = (isTarget im = (i \<in> sel))"
  by (simp add: check_cell_def make_cell_def parseInt_number_toString boolean_toString_true set_has_def)

lemma allCorrect_build_cells:
  "allCorrect (build_cells shuffled) sel = (\<forall>i < length shuffled. isTarget (shuffled ! i) = (i \<in> sel))"
  by (auto simp: allCorrect_iff build_cells_def check_cell_make_cell)


lemma grid_shows_build_cells: "grid_shows (build_cells shuffled) shuffled"
  by (auto simp: grid_shows_def build_cells_def make_cell_def intro: nth_equalityI)

lemma grid_shows_initCaptchaGrid:
  "grid_shows (captchaGrid (initCaptchaGrid rnd s)) (shuffleArray rnd CAPTCHA_IMAGES)"
  by (simp add: initCaptchaGrid_def Let_def updateVerifyButton_def grid_shows_build_cells)

lemma map_list_update_same:
  "f v = f (xs ! i) \<Longrightarrow> map f (xs[i := v]) = map f xs"
  by (cases "i < length xs") (auto simp: nth_list_update intro!: nth_equalityI)

lemma grid_shows_toggleCell:
  "grid_shows (captchaGrid s) shuffled \<Longrightarrow> grid_shows (captchaGrid (toggleCell index s)) shuffled"
  by (simp add: toggleCell_def Let_def updateVerifyButton_def grid_shows_def map_list_update_same)

lemma captchaGrid_verifyCaptcha: "captchaGrid (verifyCaptcha s) = captchaGrid s"
  by (simp add: verifyCaptcha_def verify_success_def verify_failure_def Let_def)

lemma allCorrect_grid_shows:
  assumes "grid_shows cells shuffled"
  shows "allCorrect cells sel = (\<forall>i < length shuffled. isTarget (shuffled ! i) = (i \<in> sel))"
proof -
  have len: "length cells = length shuffled"
    using assms by (auto simp: grid_shows_def dest: map_eq_imp_length_eq)
  have ix: "dataset_index (cells ! i) = number_toString i" if "i < length shuffled" for i
  proof -
    have "map dataset_index cells ! i = map number_toString [0..<length shuffled] ! i"
      using assms by (simp add: grid_shows_def)
    then show ?thesis using that len by simp
  qed
  have tg: "dataset_isTarget (cells ! i) = boolean_toString (isTarget (shuffled ! i))"
    if "i < length shuffled" for i
  proof -
    have "map dataset_isTarget cells ! i = map (\<lambda>im. boolean_toString (isTarget im)) shuffled ! i"
      using assms by (simp add: grid_shows_def)
    then show ?thesis using that len by simp
  qed
  have "check_cell sel (cells ! i) True = (isTarget (shuffled ! i) = (i \<in> sel))"
    if "i < length shuffled" for i
    using that
    by (simp add: check_cell_def ix tg parseInt_number_toString boolean_toString_true set_has_def)
  then show ?thesis
    using len by (auto simp: allCorrect_iff all_set_conv_all_nth)
qed

lemma verify_branches_differ: "verify_success s \<noteq> verify_failure s"
proof
  assume "verify_success s = verify_failure s"
  then have "failureCount (verify_success s) = failureCount (verify_failure s)" by simp
  then show False by (simp add: verify_success_def verify_failure_def Let_def)
qed

lemma verifyCaptcha_success_iff:
  "(verifyCaptcha s = verify_success s) = allCorrect (captchaGrid s) (selectedCells s)"
  using verify_branches_differ[of s] by (auto simp: verifyCaptcha_def)

lemma verifyCaptcha_failure_iff:
  "(verifyCaptcha s = verify_failure s) = (\<not> allCorrect (captchaGrid s) (selectedCells s))"
  using verify_branches_differ[of s] by (auto simp: verifyCaptcha_def)

text \<open>
  Claim C1: for every round and every selection set, \<^verbatim>\<open>verifyCaptcha\<close> takes its success
  branch if and only if, for every displayed item, the item's \<open>isTarget\<close> flag equals
  membership of its display index in the selection set; it takes the failure branch otherwise.
  Since the selection set holds display indices only, this says that the selection set equals
  exactly the set of target indices: a proper subset, a superset or any other set is rejected.
  A round is any grid whose cells carry the display indices and the flags of a list
  \<open>shuffled\<close> of items, as \<^verbatim>\<open>initCaptchaGrid\<close> builds it and \<^verbatim>\<open>toggleCell\<close> keeps it.
\<close>

theorem verifyCaptcha_exact_selection:
  assumes "grid_shows (captchaGrid s) shuffled"
  shows "((verifyCaptcha s = verify_success s)
            = (\<forall>i < length shuffled. isTarget (shuffled ! i) = (i \<in> selectedCells s)))
       \<and> ((verifyCaptcha s = verify_failure s)
            = (\<not> (\<forall>i < length shuffled. isTarget (shuffled ! i) = (i \<in> selectedCells s))))
       \<and> (selectedCells s \<subseteq> {..<length shuffled} \<longrightarrow>
            ((verifyCaptcha s = verify_success s)
               = (selectedCells s = {i. i < length shuffled \<and> isTarget (shuffled ! i)})))"
proof -
  let ?T = "{i. i < length shuffled \<and> isTarget (shuffled ! i)}"
  have ac: "allCorrect (captchaGrid s) (selectedCells s)
              = (\<forall>i < length shuffled. isTarget (shuffled ! i) = (i \<in> selectedCells s))"
    by (rule allCorrect_grid_shows[OF assms])
  have "(\<forall>i < length shuffled. isTarget (shuffled ! i) = (i \<in> selectedCells s)) = (selectedCells s = ?T)"
    if "selectedCells s \<subseteq> {..<length shuffled}"
    using that by auto
  then show ?thesis
    by (simp add: verifyCaptcha_success_iff verifyCaptcha_failure_iff ac)
qed


lemma selectedCells_subset_run:
  "selectedCells s \<subseteq> {..<n} \<Longrightarrow> \<forall>e \<in> set es. \<forall>i. e = Toggle i \<longrightarrow> i < n
     \<Longrightarrow> selectedCells (captcha_run es s) \<subseteq> {..<n}"
proof (induction es arbitrary: s)
  case Nil
  then show ?case by simp
next
  case (Cons e es)
  have "selectedCells (captcha_step e s) \<subseteq> {..<n}"
  proof (cases e)
    case (Toggle i)
    then have "i < n" using Cons.prems(2) by simp
    then show ?thesis
      using Cons.prems(1) Toggle
      by (auto simp: toggleCell_def Let_def updateVerifyButton_def)
  next
    case Verify
    then show ?thesis
      using Cons.prems(1)
      by (simp add: verifyCaptcha_def verify_success_def verify_failure_def Let_def)
  qed
  then show ?case using Cons.IH Cons.prems(2) by simp
qed

lemma grid_shows_run:
  "grid_shows (captchaGrid s) shuffled \<Longrightarrow> grid_shows (captchaGrid (captcha_run es s)) shuffled"
proof (induction es arbitrary: s)
  case Nil
  then show ?case by simp
next
  case (Cons e es)
  have "grid_shows (captchaGrid (captcha_step e s)) shuffled"
    using Cons.prems by (cases e) (simp_all add: grid_shows_toggleCell captchaGrid_verifyCaptcha)
  then show ?case using Cons.IH by simp
qed

lemma round_zero_selected_accepted:
  "allCorrect (captchaGrid round_zero_selected) (selectedCells round_zero_selected)"
  by code_simp

lemma round_zero_selected_selection: "selectedCells round_zero_selected = {0, 1, 2, 8}"
  by (auto simp: round_zero_selected_def round_zero_def initCaptchaGrid_def toggleCell_def
      Let_def updateVerifyButton_def captcha_page_load_def)

lemma length_shuffle_loop: "length (shuffle_loop rnd pos k arr) = length arr"
  by (induction k arbitrary: pos arr) (simp_all add: Let_def)

lemma length_shuffleArray: "length (shuffleArray rnd arr) = length arr"
  by (simp add: shuffleArray_def length_shuffle_loop)

theorem verifyCaptcha_exact_selection_witness:
  "grid_shows (captchaGrid round_zero_selected) (shuffleArray (\<lambda>n. 0) CAPTCHA_IMAGES)
   \<and> selectedCells round_zero_selected \<subseteq> {..<length (shuffleArray (\<lambda>n. 0) CAPTCHA_IMAGES)}
   \<and> verifyCaptcha round_zero_selected = verify_success round_zero_selected
   \<and> selectedCells round_zero_selected
       = {i. i < length (shuffleArray (\<lambda>n. 0) CAPTCHA_IMAGES)
             \<and> isTarget (shuffleArray (\<lambda>n. 0) CAPTCHA_IMAGES ! i)}"
proof -
  let ?W = "shuffleArray (\<lambda>n. 0) CAPTCHA_IMAGES"
  have g: "grid_shows (captchaGrid round_zero_selected) ?W"
    unfolding round_zero_selected_def round_zero_def
    by (intro grid_shows_run grid_shows_initCaptchaGrid)
  have len: "length ?W = 9"
    by (simp add: length_shuffleArray catalog_length)
  have sub: "selectedCells round_zero_selected \<subseteq> {..<length ?W}"
    by (simp add: round_zero_selected_selection len)
  have acc: "verifyCaptcha round_zero_selected = verify_success round_zero_selected"
    by (simp add: verifyCaptcha_def round_zero_selected_accepted)
  show ?thesis
    using verifyCaptcha_exact_selection[OF g] g sub acc by simp
qed

subsection \<open>The failure counter and the escalating messages\<close>

lemma failureCount_toggleCell: "failureCount (toggleCell index s) = failureCount s"
  by (simp add: toggleCell_def Let_def updateVerifyButton_def)

lemma failureCount_step:
  "failureCount (captcha_step e s)
     = failureCount s + (if e = Verify \<and> \<not> allCorrect (captchaGrid s) (selectedCells s) then 1 else 0)"
  by (cases e)
     (simp_all add: failureCount_toggleCell verifyCaptcha_def verify_success_def verify_failure_def Let_def)

lemma failureCount_run: "failureCount (captcha_run es s) = failureCount s + rejections es s"
  by (induction es arbitrary: s) (simp_all add: failureCount_step del: captcha_step.simps)

lemma captcha_messages_length: "length captcha_messages = 3"
  by (simp add: captcha_messages_def)

lemma verify_failure_effect:
  "failureCount (verify_failure s) = failureCount s + 1
   \<and> captchaError_text (verify_failure s)
       = captcha_messages ! min (failureCount s) (length captcha_messages - 1)
   \<and> captchaError_visible (verify_failure s)"
  by (simp add: verify_failure_def Let_def)

lemma message_index_cases:
  "captcha_messages ! min (k - 1) (length captcha_messages - 1)
     = (if k \<le> 1 then captcha_messages ! 0
        else if k = 2 then captcha_messages ! 1
        else captcha_messages ! 2)"
proof -
  have "min (k - 1) (length captcha_messages - 1) = (if k \<le> 1 then 0 else if k = 2 then 1 else 2)"
    by (auto simp: captcha_messages_length min_def)
  then show ?thesis by simp
qed

text \<open>
  Claim C8: for every \<open>k \<ge> 1\<close>, the \<open>k\<close>-th rejection by \<^verbatim>\<open>verifyCaptcha\<close> since the
  counter was last zero (page load or replay) increments the failure counter from \<open>k - 1\<close> to
  \<open>k\<close> and displays \<open>message[min(k - 1, L - 1)]\<close> of the fixed list of \<open>L = 3\<close> messages:
  message 0 on the first rejection, message 1 on the second, message 2 on the third and on every
  later one. An accepted verification does not change the failure counter. The session \<open>es\<close>
  before the call is any sequence of cell toggles and verifications, so \<open>k\<close> consecutive
  rejections are a special case.
\<close>

theorem rejection_message_sequence:
  assumes "failureCount s0 = 0"
    and "s = captcha_run es s0"
    and "k = Suc (rejections es s0)"
  shows "1 \<le> k
     \<and> length captcha_messages = 3
     \<and> (if allCorrect (captchaGrid s) (selectedCells s)
         then failureCount (verifyCaptcha s) = failureCount s
         else failureCount s = k - 1
            \<and> failureCount (verifyCaptcha s) = k
            \<and> captchaError_visible (verifyCaptcha s)
            \<and> captchaError_text (verifyCaptcha s)
                = captcha_messages ! min (k - 1) (length captcha_messages - 1)
            \<and> captchaError_text (verifyCaptcha s)
                = (if k = 1 then captcha_messages ! 0
                   else if k = 2 then captcha_messages ! 1
                   else captcha_messages ! 2))"
proof -
  have fc: "failureCount s = k - 1"
    using assms by (simp add: failureCount_run)
  have k1: "1 \<le> k" using assms(3) by simp
  show ?thesis
  proof (cases "allCorrect (captchaGrid s) (selectedCells s)")
    case True
    then show ?thesis
      using k1 by (simp add: verifyCaptcha_def verify_success_def captcha_messages_length)
  next
    case False
    have v: "verifyCaptcha s = verify_failure s"
      using False by (simp add: verifyCaptcha_def)
    have t: "captchaError_text (verify_failure s)
               = captcha_messages ! min (k - 1) (length captcha_messages - 1)"
      using verify_failure_effect[of s] fc by simp
    have t': "captchaError_text (verify_failure s)
               = (if k = 1 then captcha_messages ! 0
                  else if k = 2 then captcha_messages ! 1
                  else captcha_messages ! 2)"
      using t k1 message_index_cases[of k] by (simp split: if_splits)
    show ?thesis
      using False k1 fc v t t' verify_failure_effect[of s]
      by (simp add: captcha_messages_length)
  qed
qed

lemma round_zero_twice_wrong_rejections: "rejections [Verify, Toggle 3, Verify] round_zero = 2"
  by code_simp

lemma round_zero_twice_wrong_rejected:
  "\<not> allCorrect (captchaGrid round_zero_twice_wrong) (selectedCells round_zero_twice_wrong)"
  by code_simp

theorem rejection_message_sequence_witness:
  "failureCount round_zero = 0
   \<and> rejections [Verify, Toggle 3, Verify] round_zero = 2
   \<and> \<not> allCorrect (captchaGrid round_zero_twice_wrong) (selectedCells round_zero_twice_wrong)
   \<and> failureCount (verifyCaptcha round_zero_twice_wrong) = 3
   \<and> captchaError_text (verifyCaptcha round_zero_twice_wrong) = captcha_messages ! 2"
proof -
  have f0: "failureCount round_zero = 0"
    by (simp add: round_zero_def initCaptchaGrid_def Let_def updateVerifyButton_def
        captcha_page_load_def)
  have k: "(3::nat) = Suc (rejections [Verify, Toggle 3, Verify] round_zero)"
    unfolding round_zero_twice_wrong_rejections by simp
  note th = rejection_message_sequence[OF f0 round_zero_twice_wrong_def k]
  have "failureCount (verifyCaptcha round_zero_twice_wrong) = 3
        \<and> captchaError_text (verifyCaptcha round_zero_twice_wrong) = captcha_messages ! 2"
    using th round_zero_twice_wrong_rejected by (simp add: captcha_messages_length)
  then show ?thesis
    using f0 round_zero_twice_wrong_rejections round_zero_twice_wrong_rejected
    by (intro conjI) blast+
qed

text \<open>Consecutive rejections: clicking Verify \<open>k\<close> times on a wrong selection.\<close>

lemma verify_failure_keeps_selection:
  "captchaGrid (verify_failure s) = captchaGrid s \<and> selectedCells (verify_failure s) = selectedCells s"
  by (simp add: verify_failure_def Let_def)

lemma rejections_replicate_Verify:
  "\<not> allCorrect (captchaGrid s) (selectedCells s) \<Longrightarrow> rejections (replicate n Verify) s = n"
  by (induction n arbitrary: s) (simp_all add: verifyCaptcha_def verify_failure_keeps_selection)

section \<open>Properties of the evasive control\<close>

subsection \<open>The sampling loop\<close>




lemma sample_position_exhausted:
  "a < 50 \<Longrightarrow>
   \<forall>k. a \<le> k \<and> k < 49 \<longrightarrow> overlaps_yes yes w h (sample_x rnd vw w k) (sample_y rnd vh h k) \<Longrightarrow>
   sample_position rnd vw vh w h yes a = (sample_x rnd vw w 49, sample_y rnd vh h 49, 50)"
proof (induction rnd vw vh w h yes a rule: sample_position.induct)
  case (1 rnd vw vh btnW btnH yesRect attempts)
  show ?case
  proof (cases "attempts = 49")
    case True
    then show ?thesis by (subst sample_position.simps) (simp add: Let_def)
  next
    case False
    then have lt: "attempts + 1 < 50" using "1.prems"(1) by simp
    have ov: "overlaps_yes yesRect btnW btnH (sample_x rnd vw btnW attempts) (sample_y rnd vh btnH attempts)"
      using "1.prems"(2) lt by simp
    have "sample_position rnd vw vh btnW btnH yesRect (attempts + 1)
            = (sample_x rnd vw btnW 49, sample_y rnd vh btnH 49, 50)"
      using "1.IH"[OF refl refl refl _ lt] lt ov "1.prems"(2) by simp
    then show ?thesis using lt ov by (subst sample_position.simps) (simp add: Let_def)
  qed
qed






lemma crowded_env_exhausted:
  "sample_position (\<lambda>n. 0) (env_innerWidth crowded_env) (env_innerHeight crowded_env)
     (rect_width (env_noBtnRect crowded_env)) (rect_height (env_noBtnRect crowded_env))
     (env_yesRect crowded_env) 0 = (20, 20, 50)
   \<and> overlaps_yes (env_yesRect crowded_env) (rect_width (env_noBtnRect crowded_env))
        (rect_height (env_noBtnRect crowded_env)) 20 20"
proof -
  have ov: "overlaps_yes (env_yesRect crowded_env) (rect_width (env_noBtnRect crowded_env))
        (rect_height (env_noBtnRect crowded_env)) 20 20"
    by (simp add: crowded_env_def overlaps_yes_def rect_right_def rect_bottom_def)
  have sx: "sample_x (\<lambda>n. 0) vw w k = 20" for vw w k
    by (simp add: sample_x_def padding_def)
  have sy: "sample_y (\<lambda>n. 0) vh h k = 20" for vh h k
    by (simp add: sample_y_def padding_def)
  have z: "(0::nat) < 50" by simp
  show ?thesis
    using sample_position_exhausted[OF z, of "env_yesRect crowded_env"
        "rect_width (env_noBtnRect crowded_env)" "rect_height (env_noBtnRect crowded_env)"
        "\<lambda>n. 0" "env_innerWidth crowded_env" "env_innerHeight crowded_env"] ov
    by (simp add: sx sy)
qed

subsection \<open>The state machine\<close>

lemma evade_retired_noop: "noButtonGone s \<Longrightarrow> evadeNoButton rnd env e s = s"
  by (simp add: evadeNoButton_def)

lemma move_button_counters:
  "noEvadeAttempts (move_button rnd env s) = noEvadeAttempts s
   \<and> noButtonGone (move_button rnd env s) = noButtonGone s"
  by (simp add: move_button_def Let_def split: prod.splits)

lemma retire_button_counters:
  "noEvadeAttempts (retire_button s) = noEvadeAttempts s \<and> noButtonGone (retire_button s)"
  by (simp add: retire_button_def)

lemma evade_triggered:
  assumes "\<not> noButtonGone s" and "pointer_distance env e < detectionRadius (noEvadeAttempts s)"
  shows "noEvadeAttempts (evadeNoButton rnd env e s) = noEvadeAttempts s + 1
       \<and> noButtonGone (evadeNoButton rnd env e s) = (MAX_EVADE_BEFORE_GONE \<le> noEvadeAttempts s + 1)"
  using assms
  by (simp add: evadeNoButton_def Let_def move_button_counters retire_button_counters)

lemma evade_not_triggered:
  assumes "\<not> pointer_distance env e < detectionRadius (noEvadeAttempts s)"
  shows "evadeNoButton rnd env e s = s"
  using assms by (simp add: evadeNoButton_def)

lemma evasion_inv_page_load: "evasion_inv evasion_page_load"
  by (simp add: evasion_inv_def evasion_page_load_def MAX_EVADE_BEFORE_GONE_def)

lemma evasion_inv_evade: "evasion_inv s \<Longrightarrow> evasion_inv (evadeNoButton rnd env e s)"
proof (cases "\<not> noButtonGone s \<and> pointer_distance env e < detectionRadius (noEvadeAttempts s)")
  case True
  assume "evasion_inv s"
  then show ?thesis
    using True evade_triggered[of s env e rnd] by (auto simp: evasion_inv_def)
next
  case False
  assume "evasion_inv s"
  then show ?thesis
    using False evade_retired_noop[of s rnd env e] evade_not_triggered[of env e s rnd] by auto
qed

lemma fire_evasion_timer_counters:
  "noEvadeAttempts (fire_evasion_timer s) = noEvadeAttempts s
   \<and> noButtonGone (fire_evasion_timer s) = noButtonGone s"
  by (simp add: fire_evasion_timer_def split: list.splits prod.splits evasion_callback.splits)

lemma replay_evasion_counters:
  "noEvadeAttempts (replay_evasion s) = 0 \<and> \<not> noButtonGone (replay_evasion s)"
  by (simp add: replay_evasion_def)

lemma evasion_inv_step: "evasion_inv s \<Longrightarrow> evasion_inv (evasion_step ev s)"
proof (cases ev)
  case (Proximity rnd env e)
  assume "evasion_inv s"
  then show ?thesis using Proximity by (simp add: evasion_inv_evade)
next
  case FireTimer
  assume "evasion_inv s"
  then show ?thesis using FireTimer by (simp add: evasion_inv_def fire_evasion_timer_counters)
next
  case Replay
  assume "evasion_inv s"
  then show ?thesis
    using Replay by (simp add: evasion_inv_def replay_evasion_counters MAX_EVADE_BEFORE_GONE_def)
qed

lemma evasion_inv_run: "evasion_inv s \<Longrightarrow> evasion_inv (evasion_run evs s)"
  by (induction evs arbitrary: s) (simp_all add: evasion_inv_step del: evasion_step.simps)

text \<open>
  Claim C2: in every state \<open>s\<close> reached from the page load by any sequence of proximity
  events, timer firings and replays, the attempt count is at most 8 and the button is retired
  exactly when the count is 8. While the button is active, a proximity event whose distance to
  the button centre is below the current detection radius increments the count by exactly 1,
  and the button is retired by that event exactly when the count has reached 8; an event at or
  beyond the radius changes nothing. Once retired, every proximity event leaves the whole
  state (count, position, styles) unchanged. The replay handler returns to the active state
  with count 0.
\<close>

theorem evasion_state_machine:
  assumes "s = evasion_run evs evasion_page_load"
  shows "noEvadeAttempts s \<le> MAX_EVADE_BEFORE_GONE
     \<and> MAX_EVADE_BEFORE_GONE = 8
     \<and> noButtonGone s = (noEvadeAttempts s = MAX_EVADE_BEFORE_GONE)
     \<and> (if noButtonGone s then evadeNoButton rnd env e s = s
         else if pointer_distance env e < detectionRadius (noEvadeAttempts s)
         then noEvadeAttempts (evadeNoButton rnd env e s) = noEvadeAttempts s + 1
            \<and> noButtonGone (evadeNoButton rnd env e s)
                = (noEvadeAttempts (evadeNoButton rnd env e s) = MAX_EVADE_BEFORE_GONE)
         else evadeNoButton rnd env e s = s)
     \<and> noEvadeAttempts (fire_evasion_timer s) = noEvadeAttempts s
     \<and> noButtonGone (fire_evasion_timer s) = noButtonGone s
     \<and> noEvadeAttempts (replay_evasion s) = 0
     \<and> \<not> noButtonGone (replay_evasion s)"
proof -
  have inv: "evasion_inv s"
    using assms by (simp add: evasion_inv_run evasion_inv_page_load)
  have inv': "evasion_inv (evadeNoButton rnd env e s)"
    using inv by (rule evasion_inv_evade)
  show ?thesis
    using inv inv' evade_triggered[of s env e rnd] evade_not_triggered[of env e s rnd]
      evade_retired_noop[of s rnd env e]
    by (simp add: evasion_inv_def fire_evasion_timer_counters replay_evasion_counters
        MAX_EVADE_BEFORE_GONE_def)
qed

lemma approach_distance: "pointer_distance sample_env on_button = 0"
  by (simp add: pointer_distance_def sample_env_def on_button_def client_point_def hypot_def Let_def)

lemma detectionRadius_positive: "0 < detectionRadius n"
  by (simp add: detectionRadius_def)

lemma approach_effect:
  "\<not> noButtonGone s \<Longrightarrow>
     noEvadeAttempts (evasion_step approach s) = noEvadeAttempts s + 1
     \<and> noButtonGone (evasion_step approach s) = (8 \<le> noEvadeAttempts s + 1)"
  using evade_triggered[of s sample_env on_button "\<lambda>n. 0"]
  by (simp add: approach_def approach_distance detectionRadius_positive MAX_EVADE_BEFORE_GONE_def)

lemma eight_approaches_retire:
  "noEvadeAttempts (evasion_run eight_approaches evasion_page_load) = 8
   \<and> noButtonGone (evasion_run eight_approaches evasion_page_load)"
proof -
  have st: "\<not> noButtonGone s \<Longrightarrow> noEvadeAttempts s = k \<Longrightarrow> k < 7 \<Longrightarrow>
     \<not> noButtonGone (evasion_step approach s) \<and> noEvadeAttempts (evasion_step approach s) = k + 1"
    for s k
    using approach_effect[of s] by simp
  let ?s0 = evasion_page_load
  have 0: "\<not> noButtonGone ?s0 \<and> noEvadeAttempts ?s0 = 0" by (simp add: evasion_page_load_def)
  let ?s1 = "evasion_step approach ?s0"
  have 1: "\<not> noButtonGone ?s1 \<and> noEvadeAttempts ?s1 = 1" using st[of ?s0 0] 0 by simp
  let ?s2 = "evasion_step approach ?s1"
  have 2: "\<not> noButtonGone ?s2 \<and> noEvadeAttempts ?s2 = 2" using st[of ?s1 1] 1 by simp
  let ?s3 = "evasion_step approach ?s2"
  have 3: "\<not> noButtonGone ?s3 \<and> noEvadeAttempts ?s3 = 3" using st[of ?s2 2] 2 by simp
  let ?s4 = "evasion_step approach ?s3"
  have 4: "\<not> noButtonGone ?s4 \<and> noEvadeAttempts ?s4 = 4" using st[of ?s3 3] 3 by simp
  let ?s5 = "evasion_step approach ?s4"
  have 5: "\<not> noButtonGone ?s5 \<and> noEvadeAttempts ?s5 = 5" using st[of ?s4 4] 4 by simp
  let ?s6 = "evasion_step approach ?s5"
  have 6: "\<not> noButtonGone ?s6 \<and> noEvadeAttempts ?s6 = 6" using st[of ?s5 5] 5 by simp
  let ?s7 = "evasion_step approach ?s6"
  have 7: "\<not> noButtonGone ?s7 \<and> noEvadeAttempts ?s7 = 7" using st[of ?s6 6] 6 by simp
  let ?s8 = "evasion_step approach ?s7"
  have 8: "noButtonGone ?s8 \<and> noEvadeAttempts ?s8 = 8" using approach_effect[of ?s7] 7 by simp
  have "evasion_run eight_approaches ?s0 = ?s8"
    by (simp only: eight_approaches_def evasion_run.simps)
  then show ?thesis using 8 by simp
qed

theorem evasion_state_machine_witness:
  "noEvadeAttempts (evasion_run eight_approaches evasion_page_load) = 8
   \<and> noButtonGone (evasion_run eight_approaches evasion_page_load)
   \<and> evadeNoButton (\<lambda>n. 0) sample_env on_button (evasion_run eight_approaches evasion_page_load)
       = evasion_run eight_approaches evasion_page_load
   \<and> noEvadeAttempts (replay_evasion (evasion_run eight_approaches evasion_page_load)) = 0
   \<and> \<not> noButtonGone (replay_evasion (evasion_run eight_approaches evasion_page_load))"
  using evasion_state_machine[OF refl, of eight_approaches "\<lambda>n. 0" sample_env on_button]
    eight_approaches_retire
  by simp

section \<open>Properties of the confetti burst\<close>

subsection \<open>One piece under repeated ticks\<close>

lemma update_piece_velocityY: "velocityY (update_piece ch p) = velocityY p"
  by (simp add: update_piece_def Let_def)

lemma update_piece_y: "piece_y (update_piece ch p) = piece_y p + velocityY p"
  by (simp add: update_piece_def Let_def)

lemma tick_pieces_length: "length (tick_pieces ch ps) \<le> length ps"
  unfolding tick_pieces_def
  using length_filter_le[of "on_screen ch" "map (update_piece ch) ps"] by simp

lemma tick_pieces_member:
  assumes "q \<in> set (tick_pieces ch ps)"
  shows "\<exists>p \<in> set ps. velocityY q = velocityY p \<and> piece_y q = piece_y p + velocityY p
           \<and> piece_y q < real ch + 50"
  using assms
  by (auto simp: tick_pieces_def update_piece_velocityY update_piece_y on_screen_def)

lemma funpow_tick_member:
  assumes "q \<in> set ((tick_pieces ch ^^ n) ps)"
  shows "\<exists>p \<in> set ps. velocityY q = velocityY p \<and> piece_y q = piece_y p + real n * velocityY p
           \<and> (0 < n \<longrightarrow> piece_y q < real ch + 50)"
  using assms
proof (induction n arbitrary: q)
  case 0
  then show ?case by auto
next
  case (Suc n)
  then have "q \<in> set (tick_pieces ch ((tick_pieces ch ^^ n) ps))" by simp
  then obtain r where r: "r \<in> set ((tick_pieces ch ^^ n) ps)" "velocityY q = velocityY r"
      "piece_y q = piece_y r + velocityY r" "piece_y q < real ch + 50"
    using tick_pieces_member by blast
  obtain p where p: "p \<in> set ps" "velocityY r = velocityY p"
      "piece_y r = piece_y p + real n * velocityY p"
    using Suc.IH[OF r(1)] by blast
  have "piece_y q = piece_y p + real (Suc n) * velocityY p"
    using r p by (simp add: algebra_simps)
  then show ?case using p r by auto
qed

lemma funpow_tick_empty:
  assumes "0 < n" and "\<forall>p \<in> set ps. real ch + 50 \<le> piece_y p + real n * velocityY p"
  shows "(tick_pieces ch ^^ n) ps = []"
proof (rule ccontr)
  assume "(tick_pieces ch ^^ n) ps \<noteq> []"
  then obtain q where "q \<in> set ((tick_pieces ch ^^ n) ps)"
    by (meson last_in_set)
  then obtain p where "p \<in> set ps" "piece_y q = piece_y p + real n * velocityY p"
      "piece_y q < real ch + 50"
    using funpow_tick_member assms(1) by blast
  then show False using assms(2) by force
qed

lemma falling_lifetime_exists:
  assumes "falling ps"
  shows "\<exists>n. 0 < n \<and> (\<forall>p \<in> set ps. real ch + 50 \<le> piece_y p + real n * velocityY p)"
  using assms
proof (induction ps)
  case Nil
  show ?case by (intro exI[of _ 1]) simp
next
  case (Cons p ps)
  then obtain n where n: "0 < n" "\<forall>p \<in> set ps. real ch + 50 \<le> piece_y p + real n * velocityY p"
    by (auto simp: falling_def)
  have v: "0 < velocityY p" using Cons.prems by (simp add: falling_def)
  obtain m where m: "(real ch + 50 - piece_y p) / velocityY p \<le> real m"
    using real_arch_simple by blast
  then have mp: "real ch + 50 \<le> piece_y p + real m * velocityY p"
    using v by (simp add: pos_divide_le_eq algebra_simps)
  let ?k = "max n m"
  have "real ch + 50 \<le> piece_y q + real ?k * velocityY q" if "q \<in> set (p # ps)" for q
  proof (cases "q = p")
    case True
    have "real m * velocityY p \<le> real ?k * velocityY p"
      using v by (intro mult_right_mono) simp_all
    then show ?thesis unfolding True using mp by linarith
  next
    case False
    then have q: "q \<in> set ps" using that by simp
    then have "0 < velocityY q" using Cons.prems by (simp add: falling_def list_all_iff)
    then have "real n * velocityY q \<le> real ?k * velocityY q"
      by (intro mult_right_mono) simp_all
    then show ?thesis using n(2) q by force
  qed
  then show ?case using n(1) by (intro exI[of _ ?k]) auto
qed

lemma falling_drains: "falling ps \<Longrightarrow> \<exists>n. (tick_pieces ch ^^ n) ps = []"
  using falling_lifetime_exists funpow_tick_empty by blast

lemma falling_tick: "falling ps \<Longrightarrow> falling (tick_pieces ch ps)"
  by (auto simp: falling_def tick_pieces_def list_all_iff update_piece_velocityY)

subsection \<open>The engine\<close>

lemma animateConfetti_pieces:
  "confettiPieces (animateConfetti s) = tick_pieces (canvas_height s) (confettiPieces s)"
  by (simp add: animateConfetti_def tick_pieces_def Let_def)

lemma animateConfetti_height: "canvas_height (animateConfetti s) = canvas_height s"
  by (simp add: animateConfetti_def Let_def)

lemma animateConfetti_pending:
  "pending_frames (animateConfetti s)
     = (if tick_pieces (canvas_height s) (confettiPieces s) = [] then pending_frames s
        else pending_frames s @ [raf_counter s + 1])"
  by (simp add: animateConfetti_def tick_pieces_def Let_def)

lemma animateConfetti_id:
  "confettiAnimationId (animateConfetti s)
     = (if tick_pieces (canvas_height s) (confettiPieces s) = [] then confettiAnimationId s
        else Some (raf_counter s + 1))"
  by (simp add: animateConfetti_def tick_pieces_def Let_def)

lemma funpow_animate_height: "canvas_height ((animateConfetti ^^ n) s) = canvas_height s"
  by (induction n) (simp_all add: animateConfetti_height)

lemma funpow_animate_pieces:
  "confettiPieces ((animateConfetti ^^ n) s) = (tick_pieces (canvas_height s) ^^ n) (confettiPieces s)"
  by (induction n) (simp_all add: animateConfetti_pieces funpow_animate_height)


lemma createConfettiPiece_falls: "0 \<le> rnd 8 \<Longrightarrow> 0 < velocityY (createConfettiPiece rnd cw ch)"
  by (simp add: createConfettiPiece_def)

lemma seed_pieces_falling: "valid_random rnd \<Longrightarrow> falling (seed_pieces rnd n cw ch)"
  by (auto simp: falling_def seed_pieces_def list_all_iff valid_random_def
      intro!: createConfettiPiece_falls)

lemma falling_append: "falling (ps @ qs) = (falling ps \<and> falling qs)"
  by (simp add: falling_def)

lemma frames_inv_animate:
  "pending_frames s = [] \<Longrightarrow> frames_inv (animateConfetti s)"
  by (simp add: frames_inv_def animateConfetti_pending animateConfetti_id)

lemma confetti_inv_animate:
  "falling (confettiPieces s) \<Longrightarrow> pending_frames s = [] \<Longrightarrow> confetti_inv (animateConfetti s)"
  by (simp add: confetti_inv_def frames_inv_animate animateConfetti_pieces falling_tick)

lemma frames_inv_truthy:
  "frames_inv s \<Longrightarrow> pending_frames s \<noteq> [] \<Longrightarrow> \<not> js_falsy (confettiAnimationId s)"
  by (cases "pending_frames s") (auto simp: frames_inv_def js_falsy_def)

lemma confetti_inv_launch:
  assumes "confetti_inv s" and "valid_random rnd"
  shows "confetti_inv (launchConfetti rnd iw ih s)"
proof -
  let ?s3 = "(resizeConfettiCanvas iw ih s)
      \<lparr>confettiPieces := confettiPieces s @ seed_pieces rnd 150 iw ih,
       confetti_timers := confetti_timers s @ [(400, SecondaryBurst)]\<rparr>"
  have l: "launchConfetti rnd iw ih s
             = (if js_falsy (confettiAnimationId s) then animateConfetti ?s3 else ?s3)"
    by (simp add: launchConfetti_def resizeConfettiCanvas_def Let_def)
  have f3: "falling (confettiPieces ?s3)"
    using assms by (simp add: confetti_inv_def falling_append seed_pieces_falling)
  have i3: "frames_inv ?s3"
    using assms(1) by (simp add: confetti_inv_def frames_inv_def resizeConfettiCanvas_def)
  show ?thesis
  proof (cases "js_falsy (confettiAnimationId s)")
    case True
    then have "pending_frames s = []"
      using frames_inv_truthy[of s] assms(1) by (auto simp: confetti_inv_def)
    then have "pending_frames ?s3 = []" by (simp add: resizeConfettiCanvas_def)
    then show ?thesis using True l f3 by (simp add: confetti_inv_animate)
  next
    case False
    then show ?thesis using l f3 i3 by (simp add: confetti_inv_def)
  qed
qed

lemma confetti_inv_secondary:
  assumes "confetti_inv s" and "valid_random rnd"
  shows "confetti_inv (secondary_burst rnd s)"
  using assms
  by (auto simp: secondary_burst_def confetti_inv_def frames_inv_def falling_append
      seed_pieces_falling split: list.splits confetti_callback.splits prod.splits)

lemma confetti_inv_frame:
  assumes "confetti_inv s"
  shows "confetti_inv (frame_step s)"
proof (cases "pending_frames s")
  case Nil
  then show ?thesis using assms by (simp add: frame_step_def)
next
  case (Cons h rest)
  then have "rest = []" using assms by (simp add: confetti_inv_def frames_inv_def)
  then have "frame_step s = animateConfetti (s\<lparr>pending_frames := []\<rparr>)"
    using Cons by (simp add: frame_step_def)
  then show ?thesis
    using assms confetti_inv_animate[of "s\<lparr>pending_frames := []\<rparr>"]
    by (simp add: confetti_inv_def)
qed

lemma confetti_inv_resize: "confetti_inv s \<Longrightarrow> confetti_inv (resizeConfettiCanvas iw ih s)"
  by (simp add: confetti_inv_def frames_inv_def resizeConfettiCanvas_def)

lemma confetti_inv_replay:
  assumes "confetti_inv s"
  shows "confetti_inv (replay_confetti s)"
proof (cases "js_falsy (confettiAnimationId s)")
  case True
  then have "pending_frames s = []"
    using frames_inv_truthy[of s] assms by (auto simp: confetti_inv_def)
  then show ?thesis
    using True by (simp add: confetti_inv_def frames_inv_def replay_confetti_def falling_def Let_def)
next
  case False
  have "filter (\<lambda>h. Some h \<noteq> confettiAnimationId s) (pending_frames s) = []"
    using assms by (auto simp: confetti_inv_def frames_inv_def filter_empty_conv)
  then show ?thesis
    using False by (simp add: confetti_inv_def frames_inv_def replay_confetti_def falling_def Let_def)
qed

lemma confetti_inv_step:
  "confetti_inv s \<Longrightarrow> event_random_ok ev \<Longrightarrow> confetti_inv (confetti_step ev s)"
  by (cases ev)
     (simp_all add: confetti_inv_launch confetti_inv_secondary confetti_inv_frame
       confetti_inv_resize confetti_inv_replay)

lemma confetti_inv_page_load: "confetti_inv confetti_page_load"
  by (simp add: confetti_inv_def frames_inv_def falling_def confetti_page_load_def)

lemma confetti_inv_run:
  "confetti_inv s \<Longrightarrow> list_all event_random_ok evs \<Longrightarrow> confetti_inv (confetti_run evs s)"
  by (induction evs arbitrary: s) (simp_all add: confetti_inv_step del: confetti_step.simps)

subsection \<open>The animation loop stops\<close>

lemma run_frames_drains:
  assumes "(tick_pieces (canvas_height s) ^^ n) (confettiPieces s) = []"
    and "pending_frames s = [h]"
  shows "\<exists>s'. run_frames s = Some s' \<and> confettiPieces s' = [] \<and> pending_frames s' = []"
  using assms
proof (induction n arbitrary: s h)
  case 0
  then have e: "confettiPieces s = []" by simp
  let ?t = "frame_step s"
  have t: "?t = animateConfetti (s\<lparr>pending_frames := []\<rparr>)"
    using 0 by (simp add: frame_step_def)
  have "confettiPieces ?t = [] \<and> pending_frames ?t = []"
    unfolding t using e by (simp add: animateConfetti_pieces animateConfetti_pending tick_pieces_def)
  moreover have "run_frames s = run_frames ?t"
    using 0 by (subst run_frames.simps) simp
  moreover have "run_frames ?t = Some ?t"
    using calculation(1) by (subst run_frames.simps) simp
  ultimately show ?case by simp
next
  case (Suc n)
  let ?t = "frame_step s"
  have t: "?t = animateConfetti (s\<lparr>pending_frames := []\<rparr>)"
    using Suc.prems by (simp add: frame_step_def)
  have rs: "run_frames s = run_frames ?t"
    using Suc.prems by (subst run_frames.simps) simp
  have pt: "confettiPieces ?t = tick_pieces (canvas_height s) (confettiPieces s)"
    unfolding t by (simp add: animateConfetti_pieces)
  have ht: "canvas_height ?t = canvas_height s"
    unfolding t by (simp add: animateConfetti_height)
  show ?case
  proof (cases "confettiPieces ?t = []")
    case True
    then have "pending_frames ?t = []"
      unfolding t by (simp add: animateConfetti_pieces animateConfetti_pending)
    then have "run_frames ?t = Some ?t" by (subst run_frames.simps) simp
    then show ?thesis using rs True \<open>pending_frames ?t = []\<close> by simp
  next
    case False
    then have pend: "pending_frames ?t = [raf_counter s + 1]"
      unfolding t by (simp add: animateConfetti_pieces animateConfetti_pending)
    have "(tick_pieces (canvas_height ?t) ^^ n) (confettiPieces ?t) = []"
      using Suc.prems(1) by (simp add: pt ht funpow_swap1)
    then show ?thesis using Suc.IH[OF _ pend] rs by simp
  qed
qed

text \<open>
  Claim C6: in every state reached from the page load (launches, delayed second bursts,
  frames, resizes and replays, with draws that obey the contract of \<^verbatim>\<open>Math.random()\<close>),
  every active piece has a strictly positive downward velocity, so under repeated ticks with
  no further seeding the active set is empty after finitely many ticks; the number of active
  pieces never grows from one tick to the next; a tick that leaves the active set empty
  requests no further frame, while a tick that leaves pieces requests exactly one; and when
  a frame is pending, the animation loop run on its own terminates, with an empty active set
  and no frame pending. Positions are reals and the canvas keeps its size during the ticks.
\<close>

theorem confetti_burst_drains:
  assumes "list_all event_random_ok evs"
    and "s = confetti_run evs confetti_page_load"
  shows "falling (confettiPieces s)
     \<and> (\<exists>n. confettiPieces ((animateConfetti ^^ n) s) = [])
     \<and> (\<forall>n. length (confettiPieces ((animateConfetti ^^ Suc n) s))
              \<le> length (confettiPieces ((animateConfetti ^^ n) s)))
     \<and> (if confettiPieces (animateConfetti s) = []
         then pending_frames (animateConfetti s) = pending_frames s
         else pending_frames (animateConfetti s) = pending_frames s @ [raf_counter s + 1])
     \<and> (pending_frames s \<noteq> [] \<longrightarrow>
          (\<exists>s'. run_frames s = Some s' \<and> confettiPieces s' = [] \<and> pending_frames s' = []))"
proof -
  have inv: "confetti_inv s"
    using assms by (simp add: confetti_inv_run confetti_inv_page_load)
  then have f: "falling (confettiPieces s)" by (simp add: confetti_inv_def)
  obtain n where n: "(tick_pieces (canvas_height s) ^^ n) (confettiPieces s) = []"
    using falling_drains[OF f] by blast
  have a: "\<exists>n. confettiPieces ((animateConfetti ^^ n) s) = []"
    using n by (auto simp: funpow_animate_pieces)
  have b: "length (confettiPieces ((animateConfetti ^^ Suc k) s))
              \<le> length (confettiPieces ((animateConfetti ^^ k) s))" for k
    by (simp add: animateConfetti_pieces tick_pieces_length)
  have c: "if confettiPieces (animateConfetti s) = []
         then pending_frames (animateConfetti s) = pending_frames s
         else pending_frames (animateConfetti s) = pending_frames s @ [raf_counter s + 1]"
    by (simp add: animateConfetti_pieces animateConfetti_pending)
  have d: "\<exists>s'. run_frames s = Some s' \<and> confettiPieces s' = [] \<and> pending_frames s' = []"
    if ne: "pending_frames s \<noteq> []"
  proof -
    obtain h rest where hr: "pending_frames s = h # rest"
      using ne by (meson list.exhaust)
    then have "rest = []"
      using inv by (simp add: confetti_inv_def frames_inv_def)
    then show ?thesis using run_frames_drains[OF n] hr by blast
  qed
  show ?thesis using f a b c d by blast
qed


subsection \<open>A concrete burst\<close>

lemma seed_pieces_zero: "seed_pieces (\<lambda>n. 0) n cw ch = replicate n (createConfettiPiece (\<lambda>j. 0) cw ch)"
  by (simp add: seed_pieces_def map_replicate_const)

lemma tick_pieces_replicate:
  "tick_pieces ch (replicate n p)
     = (if on_screen ch (update_piece ch p) then replicate n (update_piece ch p) else [])"
  by (simp add: tick_pieces_def)

lemma still_piece_first_tick:
  "on_screen (Suc 0) (update_piece (Suc 0) still_piece)"
  by (simp add: still_piece_def createConfettiPiece_def update_piece_def on_screen_def Let_def)

lemma still_piece_second_tick:
  "\<not> on_screen (Suc 0) (update_piece (Suc 0) (update_piece (Suc 0) still_piece))"
  by (simp add: still_piece_def createConfettiPiece_def update_piece_def on_screen_def Let_def)

lemma tiny_burst_state:
  "confettiPieces tiny_burst = replicate 150 (update_piece 1 still_piece)
   \<and> canvas_height tiny_burst = 1
   \<and> pending_frames tiny_burst = [1]
   \<and> confettiAnimationId tiny_burst = Some 1"
proof -
  let ?s3 = "(resizeConfettiCanvas 1 1 confetti_page_load)
      \<lparr>confettiPieces := replicate 150 still_piece,
       confetti_timers := [(400, SecondaryBurst)]\<rparr>"
  have l: "tiny_burst = animateConfetti ?s3"
    by (simp add: tiny_burst_def launchConfetti_def resizeConfettiCanvas_def Let_def
        confetti_page_load_def js_falsy_def seed_pieces_zero still_piece_def)
  have t: "tick_pieces (Suc 0) (replicate 150 still_piece)
             = replicate 150 (update_piece (Suc 0) still_piece)"
    by (simp add: tick_pieces_replicate still_piece_first_tick)
  show ?thesis
    unfolding l
    by (simp add: animateConfetti_pieces animateConfetti_height animateConfetti_pending
        animateConfetti_id resizeConfettiCanvas_def confetti_page_load_def t)
qed

lemma tiny_burst_next_tick: "confettiPieces (animateConfetti tiny_burst) = []"
  by (simp add: animateConfetti_pieces tiny_burst_state tick_pieces_replicate still_piece_second_tick)

theorem confetti_burst_drains_witness:
  "list_all event_random_ok [Launch (\<lambda>n. 0) 1 1]
   \<and> length (confettiPieces tiny_burst) = 150
   \<and> confettiPieces (animateConfetti tiny_burst) = []
   \<and> pending_frames (animateConfetti tiny_burst) = pending_frames tiny_burst
   \<and> pending_frames tiny_burst \<noteq> []
   \<and> (\<exists>s'. run_frames tiny_burst = Some s' \<and> confettiPieces s' = [] \<and> pending_frames s' = [])"
proof -
  have ok: "list_all event_random_ok [Launch (\<lambda>n. 0) 1 1]"
    by (simp add: valid_random_def)
  note th = confetti_burst_drains[OF ok tiny_burst_def]
  have ne: "pending_frames tiny_burst \<noteq> []" by (simp add: tiny_burst_state)
  have p: "pending_frames (animateConfetti tiny_burst) = pending_frames tiny_burst"
    using th tiny_burst_next_tick by simp
  have r: "\<exists>s'. run_frames tiny_burst = Some s' \<and> confettiPieces s' = [] \<and> pending_frames s' = []"
    using th ne by blast
  show ?thesis
    using ok ne p r tiny_burst_next_tick by (simp add: tiny_burst_state)
qed

subsection \<open>The stale handle\<close>

lemma frame_step_idle: "pending_frames s = [] \<Longrightarrow> frame_step s = s"
  by (simp add: frame_step_def)

lemma run_frames_idle: "pending_frames s = [] \<Longrightarrow> run_frames s = Some s"
  by (subst run_frames.simps) simp

lemma funpow_frame_step_idle: "pending_frames s = [] \<Longrightarrow> (frame_step ^^ n) s = s"
  by (induction n) (simp_all add: frame_step_idle)

lemma launch_with_handle:
  assumes "\<not> js_falsy (confettiAnimationId s)"
  shows "launchConfetti rnd iw ih s
           = s\<lparr>canvas_width := iw, canvas_height := ih, canvas_drawn := [],
               confettiPieces := confettiPieces s @ seed_pieces rnd 150 iw ih,
               confetti_timers := confetti_timers s @ [(400, SecondaryBurst)]\<rparr>"
  using assms by (simp add: launchConfetti_def resizeConfettiCanvas_def Let_def)

lemma launch_without_handle:
  assumes "js_falsy (confettiAnimationId s)"
  shows "launchConfetti rnd iw ih s
           = animateConfetti
              (s\<lparr>canvas_width := iw, canvas_height := ih, canvas_drawn := [],
                 confettiPieces := confettiPieces s @ seed_pieces rnd 150 iw ih,
                 confetti_timers := confetti_timers s @ [(400, SecondaryBurst)]\<rparr>)"
  using assms by (simp add: launchConfetti_def resizeConfettiCanvas_def Let_def)

lemma handle_kept_step:
  assumes "\<not> js_falsy (confettiAnimationId s)" and "ev \<noteq> ReplayConfetti"
  shows "\<not> js_falsy (confettiAnimationId (confetti_step ev s))"
proof (cases ev)
  case (Launch rnd iw ih)
  then show ?thesis using assms(1) by (simp add: launch_with_handle)
next
  case (Secondary rnd)
  then show ?thesis
    using assms(1)
    by (simp add: secondary_burst_def split: list.splits prod.splits confetti_callback.splits)
next
  case Frame
  then show ?thesis
    using assms(1)
    by (simp add: frame_step_def animateConfetti_id js_falsy_def split: list.splits)
next
  case (Resize iw ih)
  then show ?thesis using assms(1) by (simp add: resizeConfettiCanvas_def)
next
  case ReplayConfetti
  then show ?thesis using assms(2) by simp
qed

lemma stale_step:
  assumes "pending_frames s = []" and "confettiAnimationId s = Some h" and "0 < h"
    and "canvas_drawn s = []" and "ev \<noteq> ReplayConfetti"
  shows "pending_frames (confetti_step ev s) = []
       \<and> confettiAnimationId (confetti_step ev s) = Some h
       \<and> canvas_drawn (confetti_step ev s) = []
       \<and> confettiPieces (confetti_step ev s) = confettiPieces s @ seeds_of ev s"
proof (cases ev)
  case (Launch rnd iw ih)
  have "\<not> js_falsy (confettiAnimationId s)" using assms(2,3) by (simp add: js_falsy_def)
  then show ?thesis using Launch assms by (simp add: launch_with_handle)
next
  case (Secondary rnd)
  then show ?thesis
    using assms
    by (cases "confetti_timers s")
       (auto simp: secondary_burst_def split: prod.splits confetti_callback.splits)
next
  case Frame
  then show ?thesis using assms by (simp add: frame_step_idle)
next
  case (Resize iw ih)
  then show ?thesis using assms by (simp add: resizeConfettiCanvas_def)
next
  case ReplayConfetti
  then show ?thesis using assms(5) by simp
qed

lemma stale_run:
  assumes "pending_frames s = []" and "confettiAnimationId s = Some h" and "0 < h"
    and "canvas_drawn s = []" and "list_all (\<lambda>ev. ev \<noteq> ReplayConfetti) evs"
  shows "pending_frames (confetti_run evs s) = []
       \<and> confettiAnimationId (confetti_run evs s) = Some h
       \<and> canvas_drawn (confetti_run evs s) = []
       \<and> confettiPieces (confetti_run evs s) = confettiPieces s @ all_seeds evs s"
  using assms
proof (induction evs arbitrary: s)
  case Nil
  then show ?case by simp
next
  case (Cons ev evs)
  have ev: "ev \<noteq> ReplayConfetti" and rest: "list_all (\<lambda>ev. ev \<noteq> ReplayConfetti) evs"
    using Cons.prems(5) by simp_all
  note st = stale_step[OF Cons.prems(1) Cons.prems(2) Cons.prems(3) Cons.prems(4) ev]
  have s1: "pending_frames (confetti_step ev s) = []"
    and s2: "confettiAnimationId (confetti_step ev s) = Some h"
    and s3: "canvas_drawn (confetti_step ev s) = []"
    and s4: "confettiPieces (confetti_step ev s) = confettiPieces s @ seeds_of ev s"
    using st by blast+
  note ih = Cons.IH[OF s1 s2 Cons.prems(3) s3 rest]
  show ?case using ih s4 by simp
qed

text \<open>
  Claim C10: let the last pending frame of a burst be the one whose tick empties the active
  set, the handle variable holding that frame's handle \<open>h\<close>. After the frame has run the
  active set is empty, no frame is pending, and the handle variable still holds \<open>h\<close>. A
  \<^verbatim>\<open>launchConfetti\<close> in that state appends its 150 pieces and requests no frame. From then
  on, through every sequence of handlers other than the replay handler (the delayed second
  burst that the launch leaves pending, frames, resizes, further launches), no frame is ever
  pending, the canvas stays blank, the handle variable keeps the stale \<open>h\<close>, and the active
  set is the 150 pieces followed by the pieces created since, each exactly as
  \<^verbatim>\<open>createConfettiPiece\<close> returned it: none is advanced, drawn or removed. The replay
  handler sets the handle variable to \<^verbatim>\<open>null\<close>, after which \<^verbatim>\<open>launchConfetti\<close> runs
  \<^verbatim>\<open>animateConfetti\<close> again.
\<close>

theorem stale_handle_blocks_relaunch:
  assumes "confettiAnimationId s = Some h" and "0 < h" and "pending_frames s = [h]"
    and "tick_pieces (canvas_height s) (confettiPieces s) = []"
  shows "confettiPieces (frame_step s) = []
     \<and> pending_frames (frame_step s) = []
     \<and> confettiAnimationId (frame_step s) = Some h
     \<and> confettiPieces (launchConfetti rnd iw ih (frame_step s)) = seed_pieces rnd 150 iw ih
     \<and> length (confettiPieces (launchConfetti rnd iw ih (frame_step s))) = 150
     \<and> pending_frames (launchConfetti rnd iw ih (frame_step s)) = []
     \<and> canvas_drawn (launchConfetti rnd iw ih (frame_step s)) = []
     \<and> confettiAnimationId (launchConfetti rnd iw ih (frame_step s)) = Some h
     \<and> (\<forall>n. (frame_step ^^ n) (launchConfetti rnd iw ih (frame_step s))
              = launchConfetti rnd iw ih (frame_step s))
     \<and> run_frames (launchConfetti rnd iw ih (frame_step s))
         = Some (launchConfetti rnd iw ih (frame_step s))
     \<and> (\<forall>ev. ev \<noteq> ReplayConfetti \<longrightarrow>
           \<not> js_falsy (confettiAnimationId
                (confetti_step ev (launchConfetti rnd iw ih (frame_step s)))))
     \<and> (\<forall>evs. list_all (\<lambda>ev. ev \<noteq> ReplayConfetti) evs \<longrightarrow>
           pending_frames (confetti_run evs (launchConfetti rnd iw ih (frame_step s))) = []
         \<and> confettiAnimationId (confetti_run evs (launchConfetti rnd iw ih (frame_step s)))
             = Some h
         \<and> canvas_drawn (confetti_run evs (launchConfetti rnd iw ih (frame_step s))) = []
         \<and> confettiPieces (confetti_run evs (launchConfetti rnd iw ih (frame_step s)))
             = seed_pieces rnd 150 iw ih
                 @ all_seeds evs (launchConfetti rnd iw ih (frame_step s))
         \<and> run_frames (confetti_run evs (launchConfetti rnd iw ih (frame_step s)))
             = Some (confetti_run evs (launchConfetti rnd iw ih (frame_step s))))
     \<and> confettiAnimationId (replay_confetti (launchConfetti rnd iw ih (frame_step s))) = None
     \<and> launchConfetti rnd' iw ih (replay_confetti (launchConfetti rnd iw ih (frame_step s)))
         = animateConfetti
             ((replay_confetti (launchConfetti rnd iw ih (frame_step s)))
                \<lparr>canvas_width := iw, canvas_height := ih, canvas_drawn := [],
                 confettiPieces := seed_pieces rnd' 150 iw ih,
                 confetti_timers :=
                   confetti_timers (replay_confetti (launchConfetti rnd iw ih (frame_step s)))
                     @ [(400, SecondaryBurst)]\<rparr>)"
proof -
  let ?d = "frame_step s"
  let ?l = "launchConfetti rnd iw ih ?d"
  have d: "?d = animateConfetti (s\<lparr>pending_frames := []\<rparr>)"
    using assms(3) by (simp add: frame_step_def)
  have d1: "confettiPieces ?d = []"
    unfolding d using assms(4) by (simp add: animateConfetti_pieces)
  have d2: "pending_frames ?d = []"
    unfolding d using assms(4) by (simp add: animateConfetti_pending)
  have d3: "confettiAnimationId ?d = Some h"
    unfolding d using assms(1,4) by (simp add: animateConfetti_id)
  have truthy: "\<not> js_falsy (confettiAnimationId ?d)"
    using d3 assms(2) by (simp add: js_falsy_def)
  note l = launch_with_handle[OF truthy, of rnd iw ih]
  have l1: "confettiPieces ?l = seed_pieces rnd 150 iw ih" by (simp add: l d1)
  have l1': "length (confettiPieces ?l) = 150" by (simp add: l1 seed_pieces_def)
  have l2: "pending_frames ?l = []" by (simp add: l d2)
  have l3: "canvas_drawn ?l = []" by (simp add: l)
  have l4: "confettiAnimationId ?l = Some h" by (simp add: l d3)
  have truthy': "\<not> js_falsy (confettiAnimationId ?l)"
    using l4 assms(2) by (simp add: js_falsy_def)
  have l5: "\<forall>n. (frame_step ^^ n) ?l = ?l" using funpow_frame_step_idle[OF l2] by simp
  have l6: "run_frames ?l = Some ?l" by (rule run_frames_idle[OF l2])
  have l7: "\<forall>ev. ev \<noteq> ReplayConfetti \<longrightarrow> \<not> js_falsy (confettiAnimationId (confetti_step ev ?l))"
    using handle_kept_step[OF truthy'] by blast
  have l8: "\<forall>evs. list_all (\<lambda>ev. ev \<noteq> ReplayConfetti) evs \<longrightarrow>
           pending_frames (confetti_run evs ?l) = []
         \<and> confettiAnimationId (confetti_run evs ?l) = Some h
         \<and> canvas_drawn (confetti_run evs ?l) = []
         \<and> confettiPieces (confetti_run evs ?l) = seed_pieces rnd 150 iw ih @ all_seeds evs ?l
         \<and> run_frames (confetti_run evs ?l) = Some (confetti_run evs ?l)"
  proof (intro allI impI)
    fix evs
    assume nr: "list_all (\<lambda>ev. ev \<noteq> ReplayConfetti) evs"
    note sr = stale_run[OF l2 l4 assms(2) l3 nr]
    have p: "pending_frames (confetti_run evs ?l) = []" using sr by blast
    show "pending_frames (confetti_run evs ?l) = []
         \<and> confettiAnimationId (confetti_run evs ?l) = Some h
         \<and> canvas_drawn (confetti_run evs ?l) = []
         \<and> confettiPieces (confetti_run evs ?l) = seed_pieces rnd 150 iw ih @ all_seeds evs ?l
         \<and> run_frames (confetti_run evs ?l) = Some (confetti_run evs ?l)"
      using sr run_frames_idle[OF p] unfolding l1 by blast
  qed
  have r1: "confettiAnimationId (replay_confetti ?l) = None"
    using truthy' by (simp add: replay_confetti_def Let_def)
  have r2: "confettiPieces (replay_confetti ?l) = []"
    by (simp add: replay_confetti_def Let_def)
  have r3: "launchConfetti rnd' iw ih (replay_confetti ?l)
         = animateConfetti
             ((replay_confetti ?l)
                \<lparr>canvas_width := iw, canvas_height := ih, canvas_drawn := [],
                 confettiPieces := seed_pieces rnd' 150 iw ih,
                 confetti_timers := confetti_timers (replay_confetti ?l) @ [(400, SecondaryBurst)]\<rparr>)"
    using launch_without_handle[of "replay_confetti ?l" rnd' iw ih] r1 r2
    by (simp add: js_falsy_def)
  show ?thesis
    using d1 d2 d3 l1 l1' l2 l3 l4 l5 l6 l7 l8 r1 r3 by (intro conjI)
qed

lemma length_seed_pieces: "length (seed_pieces rnd n cw ch) = n"
  by (simp add: seed_pieces_def)

lemma relaunch_pending_timer:
  "confetti_timers (launchConfetti (\<lambda>n. 0) 1 1 (frame_step tiny_burst)) \<noteq> []"
proof -
  have a: "confettiAnimationId tiny_burst = Some 1" by (simp add: tiny_burst_state)
  have c: "pending_frames tiny_burst = [1]" by (simp add: tiny_burst_state)
  have e: "tick_pieces (canvas_height tiny_burst) (confettiPieces tiny_burst) = []"
    using tiny_burst_next_tick by (simp add: animateConfetti_pieces)
  have "frame_step tiny_burst = animateConfetti (tiny_burst\<lparr>pending_frames := []\<rparr>)"
    using c by (simp add: frame_step_def)
  then have "confettiAnimationId (frame_step tiny_burst) = Some 1"
    using a e by (simp add: animateConfetti_id)
  then have "\<not> js_falsy (confettiAnimationId (frame_step tiny_burst))"
    by (simp add: js_falsy_def)
  then show ?thesis by (simp add: launch_with_handle)
qed

theorem stale_handle_blocks_relaunch_witness:
  "confettiAnimationId tiny_burst = Some 1
   \<and> pending_frames tiny_burst = [1]
   \<and> tick_pieces (canvas_height tiny_burst) (confettiPieces tiny_burst) = []
   \<and> confettiAnimationId (frame_step tiny_burst) = Some 1
   \<and> length (confettiPieces (launchConfetti (\<lambda>n. 0) 1 1 (frame_step tiny_burst))) = 150
   \<and> pending_frames (launchConfetti (\<lambda>n. 0) 1 1 (frame_step tiny_burst)) = []
   \<and> run_frames (launchConfetti (\<lambda>n. 0) 1 1 (frame_step tiny_burst))
       = Some (launchConfetti (\<lambda>n. 0) 1 1 (frame_step tiny_burst))
   \<and> list_all (\<lambda>ev. ev \<noteq> ReplayConfetti) after_relaunch
   \<and> pending_frames
        (confetti_run after_relaunch (launchConfetti (\<lambda>n. 0) 1 1 (frame_step tiny_burst))) = []
   \<and> canvas_drawn
        (confetti_run after_relaunch (launchConfetti (\<lambda>n. 0) 1 1 (frame_step tiny_burst))) = []
   \<and> confettiAnimationId
        (confetti_run after_relaunch (launchConfetti (\<lambda>n. 0) 1 1 (frame_step tiny_burst)))
       = Some 1
   \<and> length (confettiPieces
        (confetti_run after_relaunch (launchConfetti (\<lambda>n. 0) 1 1 (frame_step tiny_burst))))
       = 380"
proof -
  let ?l = "launchConfetti (\<lambda>n. 0) 1 1 (frame_step tiny_burst)"
  have a: "confettiAnimationId tiny_burst = Some 1" by (simp add: tiny_burst_state)
  have b: "(0::nat) < 1" by simp
  have c: "pending_frames tiny_burst = [1]" by (simp add: tiny_burst_state)
  have e: "tick_pieces (canvas_height tiny_burst) (confettiPieces tiny_burst) = []"
    using tiny_burst_next_tick by (simp add: animateConfetti_pieces)
  have nr: "list_all (\<lambda>ev. ev \<noteq> ReplayConfetti) after_relaunch"
    by (simp add: after_relaunch_def)
  note th = stale_handle_blocks_relaunch[OF a b c e, of "\<lambda>n. 0" 1 1 "\<lambda>n. 0"]
  have run: "pending_frames (confetti_run after_relaunch ?l) = []
     \<and> confettiAnimationId (confetti_run after_relaunch ?l) = Some 1
     \<and> canvas_drawn (confetti_run after_relaunch ?l) = []
     \<and> confettiPieces (confetti_run after_relaunch ?l)
         = seed_pieces (\<lambda>n. 0) 150 1 1 @ all_seeds after_relaunch ?l"
    using th nr by blast
  have "length (all_seeds after_relaunch ?l) = 230"
    using relaunch_pending_timer
    by (simp add: after_relaunch_def length_seed_pieces)
  then have len: "length (confettiPieces (confetti_run after_relaunch ?l)) = 380"
    using run by (simp add: length_seed_pieces)
  show ?thesis using a c e nr th run len by blast
qed

section \<open>Properties of the typewriter\<close>

subsection \<open>The sample reveal\<close>

lemma two_chars_typed_lines: "map line_innerHTML (tw_lines two_chars_typed) = [''Hi'', [] ]"
  by code_simp

lemma two_chars_typed_live: "only_current_live two_chars_typed"
  by code_simp

lemma two_chars_typed_next:
  "map line_innerHTML (tw_lines (fire_tw 0 zero_draws two_chars_typed)) = [''Hi,'', [] ]"
  by code_simp

subsection \<open>Aborted callbacks do nothing\<close>

lemma typeNext_aborted: "run_signal run \<in> aborted_signals s \<Longrightarrow> typeNext rnd run t s = s"
  by (subst typeNext.simps) simp

lemma typeNextLine_aborted: "run_signal run \<in> aborted_signals s \<Longrightarrow> typeNextLine run s = s"
  by (simp add: typeNextLine_def)

lemma in_flight_empty_iff: "(in_flight s = []) = all_aborted s"
  by (auto simp: in_flight_def all_aborted_def filter_empty_conv list_all_iff)

lemma fire_tw_all_aborted:
  assumes "all_aborted s"
  shows "fire_tw i rnd s = (if i < length (tw_timers s)
            then s\<lparr>tw_timers := take i (tw_timers s) @ drop (Suc i) (tw_timers s)\<rparr> else s)"
proof (cases "i < length (tw_timers s)")
  case False
  then show ?thesis by (simp add: fire_tw_def)
next
  case True
  then have "tw_timers s ! i \<in> set (tw_timers s)" by simp
  then have ab: "cb_signal (snd (tw_timers s ! i)) \<in> aborted_signals s"
    using assms by (auto simp: all_aborted_def list_all_iff)
  show ?thesis
    using True ab
    by (cases "snd (tw_timers s ! i)")
       (simp_all add: fire_tw_def Let_def typeNext_aborted typeNextLine_aborted)
qed

lemma all_aborted_fire_tw: "all_aborted s \<Longrightarrow> all_aborted (fire_tw i rnd s)"
proof -
  assume a: "all_aborted s"
  have "set (take i (tw_timers s) @ drop (Suc i) (tw_timers s)) \<subseteq> set (tw_timers s)"
    using set_take_subset set_drop_subset by (metis Un_least set_append)
  then show ?thesis
    using a by (auto simp: fire_tw_all_aborted[OF a] all_aborted_def list_all_iff)
qed

lemma fire_tw_aborted_view:
  "all_aborted s \<Longrightarrow>
     tw_lines (fire_tw i rnd s) = tw_lines s \<and> replayBtn_hidden (fire_tw i rnd s) = replayBtn_hidden s"
  by (simp add: fire_tw_all_aborted)

lemma fire_all_aborted_view:
  "all_aborted s \<Longrightarrow>
     tw_lines (fire_all fs s) = tw_lines s \<and> replayBtn_hidden (fire_all fs s) = replayBtn_hidden s"
proof (induction fs arbitrary: s)
  case Nil
  then show ?case by simp
next
  case (Cons f fs)
  obtain i rnd where f: "f = (i, rnd)" by (cases f)
  show ?case
    using Cons.IH[OF all_aborted_fire_tw[OF Cons.prems, of i rnd]]
      fire_tw_aborted_view[OF Cons.prems, of i rnd]
    by (simp add: f)
qed

subsection \<open>The abort block and \<^verbatim>\<open>resetTypewriter\<close>\<close>

lemma abort_controller_view:
  "tw_lines (abort_controller s) = tw_lines s
   \<and> replayBtn_hidden (abort_controller s) = replayBtn_hidden s
   \<and> tw_timers (abort_controller s) = tw_timers s
   \<and> typewriterOriginals (abort_controller s) = typewriterOriginals s"
  by (simp add: abort_controller_def split: option.splits)

lemma abort_controller_all_aborted:
  "only_current_live s \<Longrightarrow> all_aborted (abort_controller s)"
  by (auto simp: only_current_live_def in_flight_def all_aborted_def abort_controller_def
      list_all_iff split: option.splits)

lemma fold_restore_line_frame:
  "tw_timers (fold restore_line os s) = tw_timers s
   \<and> aborted_signals (fold restore_line os s) = aborted_signals s
   \<and> typewriterAbortController (fold restore_line os s) = typewriterAbortController s
   \<and> replayBtn_hidden (fold restore_line os s) = replayBtn_hidden s"
  by (induction os arbitrary: s) (simp_all add: restore_line_def set_active_def set_innerHTML_def)

lemma resetTypewriter_all_aborted:
  "only_current_live s \<Longrightarrow> all_aborted (resetTypewriter s)"
  using abort_controller_all_aborted[of s]
  by (simp add: resetTypewriter_def Let_def all_aborted_def fold_restore_line_frame)

text \<open>
  Claim C3, amended: abort is the first block of \<^verbatim>\<open>resetTypewriter\<close>
  (\<^verbatim>\<open>typewriterAbortController.abort()\<close>, then the variable is set to \<^verbatim>\<open>null\<close>).
  For every state in which the reveals in flight are the one the controller variable refers
  to, and every later sequence of timer firings, in any order and with any draws: the abort
  itself changes no line and not the replay button, and no fired callback ever changes a line
  (appends a character, moves the cursor) or shows the replay button afterwards. The same
  holds after the whole of \<^verbatim>\<open>resetTypewriter\<close>, which also restores the lines. Before
  the first reveal (the variable is \<^verbatim>\<open>null\<close>) the abort returns the state unchanged;
  when no reveal is in flight (before a reveal or after its completion) lines and button are
  as they were, now and after any timer firings.
\<close>

theorem abort_halts_reveal:
  assumes "only_current_live s"
  shows "tw_lines (abort_controller s) = tw_lines s
     \<and> replayBtn_hidden (abort_controller s) = replayBtn_hidden s
     \<and> tw_lines (fire_all fs (abort_controller s)) = tw_lines s
     \<and> replayBtn_hidden (fire_all fs (abort_controller s)) = replayBtn_hidden s
     \<and> tw_lines (fire_all fs (resetTypewriter s)) = tw_lines (resetTypewriter s)
     \<and> (typewriterAbortController s = None \<longrightarrow> abort_controller s = s)
     \<and> (in_flight s = [] \<longrightarrow>
          tw_lines (fire_all fs s) = tw_lines s
        \<and> replayBtn_hidden (fire_all fs s) = replayBtn_hidden s)"
proof -
  note a = abort_controller_all_aborted[OF assms]
  note r = resetTypewriter_all_aborted[OF assms]
  have n: "typewriterAbortController s = None \<longrightarrow> abort_controller s = s"
    by (simp add: abort_controller_def)
  show ?thesis
    using fire_all_aborted_view[OF a, of fs] fire_all_aborted_view[OF r, of fs]
      abort_controller_view[of s] n fire_all_aborted_view[of s fs]
    by (simp add: in_flight_empty_iff)
qed

theorem abort_halts_reveal_witness:
  "only_current_live two_chars_typed
   \<and> map line_innerHTML (tw_lines two_chars_typed) = [''Hi'', [] ]
   \<and> map line_innerHTML (tw_lines (fire_tw 0 zero_draws two_chars_typed)) = [''Hi,'', [] ]
   \<and> map line_innerHTML
        (tw_lines (fire_all [(0, zero_draws), (0, zero_draws), (0, zero_draws)]
           (abort_controller two_chars_typed))) = [''Hi'', [] ]"
  using abort_halts_reveal[OF two_chars_typed_live,
      of "[(0, zero_draws), (0, zero_draws), (0, zero_draws)]"]
    two_chars_typed_live two_chars_typed_lines two_chars_typed_next
  by simp

text \<open>
  Claim C3, as the specification states it, speaks of every reveal in progress. After two
  calls of \<^verbatim>\<open>startTypewriter\<close> in a row two reveals are in progress and the controller
  variable refers to the second one only. The abort stops that one; the pending callback of
  the first reveal, fired after the abort, types the first character of the letter.
\<close>

theorem abort_misses_earlier_reveal_counterexample:
  "map line_innerHTML (tw_lines (abort_controller started_twice)) = [[], []]
   \<and> map line_innerHTML (tw_lines (fire_tw 0 zero_draws (abort_controller started_twice)))
       = [''H'', []]
   \<and> tw_lines (fire_tw 0 zero_draws (abort_controller started_twice))
       \<noteq> tw_lines (abort_controller started_twice)"
proof -
  have a: "map line_innerHTML (tw_lines (abort_controller started_twice)) = [[], []]"
    by code_simp
  have b: "map line_innerHTML (tw_lines (fire_tw 0 zero_draws (abort_controller started_twice)))
       = [''H'', []]"
    by code_simp
  have "map line_innerHTML (tw_lines (fire_tw 0 zero_draws (abort_controller started_twice)))
       \<noteq> map line_innerHTML (tw_lines (abort_controller started_twice))"
    unfolding a b by simp
  then have "tw_lines (fire_tw 0 zero_draws (abort_controller started_twice))
       \<noteq> tw_lines (abort_controller started_twice)"
    by auto
  then show ?thesis using a b by blast
qed

subsection \<open>What a callback of the typewriter changes\<close>

lemma set_innerHTML_frame:
  "tw_timers (set_innerHTML el h s) = tw_timers s
   \<and> aborted_signals (set_innerHTML el h s) = aborted_signals s
   \<and> typewriterAbortController (set_innerHTML el h s) = typewriterAbortController s
   \<and> controllers_made (set_innerHTML el h s) = controllers_made s
   \<and> replayBtn_hidden (set_innerHTML el h s) = replayBtn_hidden s
   \<and> typewriterOriginals (set_innerHTML el h s) = typewriterOriginals s"
  by (simp add: set_innerHTML_def)

lemma appendCursor_frame:
  "tw_timers (appendCursor el s) = tw_timers s
   \<and> aborted_signals (appendCursor el s) = aborted_signals s
   \<and> typewriterAbortController (appendCursor el s) = typewriterAbortController s
   \<and> controllers_made (appendCursor el s) = controllers_made s
   \<and> replayBtn_hidden (appendCursor el s) = replayBtn_hidden s
   \<and> typewriterOriginals (appendCursor el s) = typewriterOriginals s"
  by (simp add: appendCursor_def)

lemma set_active_frame:
  "tw_timers (set_active el b s) = tw_timers s
   \<and> aborted_signals (set_active el b s) = aborted_signals s
   \<and> typewriterAbortController (set_active el b s) = typewriterAbortController s
   \<and> controllers_made (set_active el b s) = controllers_made s
   \<and> replayBtn_hidden (set_active el b s) = replayBtn_hidden s
   \<and> typewriterOriginals (set_active el b s) = typewriterOriginals s"
  by (simp add: set_active_def)

lemma tw_setTimeout_frame:
  "tw_timers (tw_setTimeout cb d s) = tw_timers s @ [(d, cb)]
   \<and> aborted_signals (tw_setTimeout cb d s) = aborted_signals s
   \<and> typewriterAbortController (tw_setTimeout cb d s) = typewriterAbortController s
   \<and> controllers_made (tw_setTimeout cb d s) = controllers_made s
   \<and> replayBtn_hidden (tw_setTimeout cb d s) = replayBtn_hidden s"
  by (simp add: tw_setTimeout_def)

lemma typeNext_adds_one:
  "run_signal run \<notin> aborted_signals s \<Longrightarrow> adds_one (run_signal run) s (typeNext rnd run t s)"
proof (induction rnd run t s rule: typeNext.induct)
  case (1 rnd run t s)
  show ?case
  proof (cases "segIdx t \<ge> length (segments t)")
    case True
    then show ?thesis
      using "1.prems"
      by (subst typeNext.simps)
         (simp add: adds_one_def same_control_def tw_setTimeout_frame set_innerHTML_frame)
  next
    case False
    show ?thesis
    proof (cases "segments t ! segIdx t")
      case (TagSeg content)
      have "typeNext rnd run t s
              = typeNext rnd run (t\<lparr>segIdx := segIdx t + 1, built := built t @ content\<rparr>) s"
        using False "1.prems" TagSeg by (subst typeNext.simps) simp
      then show ?thesis
        using "1.IH"[OF "1.prems" _ TagSeg "1.prems"] False "1.prems" by simp
    next
      case (CharSeg c)
      then show ?thesis
        using False "1.prems"
        by (subst typeNext.simps)
           (simp add: adds_one_def same_control_def tw_setTimeout_frame set_innerHTML_frame
             appendCursor_frame Let_def)
    qed
  qed
qed

lemma typeHTMLContent_adds_one: "adds_one (run_signal run) s (typeHTMLContent el html run s)"
  by (simp add: typeHTMLContent_def Let_def adds_one_def same_control_def tw_setTimeout_frame
      set_innerHTML_frame appendCursor_frame)

lemma typeNextLine_cases:
  "run_signal run \<notin> aborted_signals s \<Longrightarrow>
     adds_one (run_signal run) s (typeNextLine run s) \<or> completes s (typeNextLine run s)"
proof (cases "currentLineIdx run \<ge> length (lineData run)")
  case True
  assume "run_signal run \<notin> aborted_signals s"
  then have "completes s (typeNextLine run s)"
    using True
    by (auto simp: typeNextLine_def completes_def same_control_def run_onComplete_def
        split: option.splits on_complete.splits)
  then show ?thesis by simp
next
  case False
  assume na: "run_signal run \<notin> aborted_signals s"
  let ?run1 = "run\<lparr>currentLineIdx := currentLineIdx run + 1\<rparr>"
  have "adds_one (run_signal run) s (typeNextLine run s)"
  proof (cases "isInstant (lineData run ! currentLineIdx run)")
    case True
    then show ?thesis
      using False na
      by (simp add: typeNextLine_def Let_def adds_one_def same_control_def tw_setTimeout_frame
          set_innerHTML_frame)
  next
    case i: False
    have "typeNextLine run s
            = typeHTMLContent (orig_el (lineData run ! currentLineIdx run))
                (originalHTML (lineData run ! currentLineIdx run)) ?run1 s"
      using False na i by (simp add: typeNextLine_def Let_def)
    then show ?thesis
      using typeHTMLContent_adds_one[of ?run1 s] by simp
  qed
  then show ?thesis by simp
qed


subsection \<open>Firing one typewriter timer\<close>

lemma filter_remove_nth_other:
  assumes "i < length xs" and "\<not> P (xs ! i)"
  shows "filter P (take i xs @ drop (Suc i) xs) = filter P xs"
proof -
  have "filter P xs = filter P (take i xs @ xs ! i # drop (Suc i) xs)"
    using assms(1) by (simp add: id_take_nth_drop[symmetric])
  then show ?thesis using assms(2) by simp
qed

lemma filter_remove_nth_hit:
  assumes "i < length xs" and "P (xs ! i)"
  shows "length (filter P xs) = Suc (length (filter P (take i xs @ drop (Suc i) xs)))"
proof -
  have "filter P xs = filter P (take i xs @ xs ! i # drop (Suc i) xs)"
    using assms(1) by (simp add: id_take_nth_drop[symmetric])
  then show ?thesis using assms(2) by simp
qed

lemma set_remove_nth_subset: "set (take i xs @ drop (Suc i) xs) \<subseteq> set xs"
  using set_take_subset[of i xs] set_drop_subset[of "Suc i" xs] by auto

lemma live_timers_cong:
  "tw_timers s' = tw_timers s \<Longrightarrow> aborted_signals s' = aborted_signals s
     \<Longrightarrow> live_timers s' = live_timers s"
  by (simp add: live_timers_def)

lemma fire_tw_outcome:
  assumes inv: "tw_inv t"
  shows "fire_outcome t (fire_tw i rnd t)"
proof (cases "i < length (tw_timers t)")
  case False
  then show ?thesis using inv by (simp add: fire_tw_def fire_outcome_def same_control_def)
next
  case True
  let ?rem = "take i (tw_timers t) @ drop (Suc i) (tw_timers t)"
  let ?t1 = "t\<lparr>tw_timers := ?rem\<rparr>"
  obtain d cb where dcb: "tw_timers t ! i = (d, cb)" by (cases "tw_timers t ! i")
  have mem: "(d, cb) \<in> set (tw_timers t)" using True dcb by (metis nth_mem)
  have bound1: "list_all (\<lambda>(d, cb). cb_signal cb < controllers_made t) ?rem"
    using inv set_remove_nth_subset[of i "tw_timers t"]
    by (auto simp: tw_inv_def list_all_iff)
  have cbound: "cb_signal cb < controllers_made t"
    using inv mem by (auto simp: tw_inv_def list_all_iff)
  have f: "fire_tw i rnd t
             = (case cb of TypeNextLine run \<Rightarrow> typeNextLine run ?t1
                         | TypeNext run ty \<Rightarrow> typeNext rnd run ty ?t1)"
    using True dcb by (simp add: fire_tw_def Let_def)
  show ?thesis
  proof (cases "cb_signal cb \<in> aborted_signals t")
    case ab: True
    have f1: "fire_tw i rnd t = ?t1"
      using ab by (cases cb) (simp_all add: f typeNext_aborted typeNextLine_aborted)
    have l1: "live_timers ?t1 = live_timers t"
      using filter_remove_nth_other[OF True, of "\<lambda>(d, cb). cb_signal cb \<notin> aborted_signals t"]
        ab dcb by (simp add: live_timers_def)
    show ?thesis
      unfolding f1 using inv bound1 l1
      by (simp add: fire_outcome_def tw_inv_def same_control_def)
  next
    case live: False
    have hit: "length (live_timers t) = Suc (length (live_timers ?t1))"
      using filter_remove_nth_hit[OF True, of "\<lambda>(d, cb). cb_signal cb \<notin> aborted_signals t"]
        live dcb by (simp add: live_timers_def)
    then have l1: "live_timers ?t1 = []"
      using inv by (simp add: tw_inv_def)
    have lne: "live_timers t \<noteq> []" using hit by auto
    have "(d, cb) \<in> set (live_timers t)"
      using mem live by (simp add: live_timers_def)
    then have cur: "typewriterAbortController t = Some (cb_signal cb)"
      using inv by (auto simp: tw_inv_def list_all_iff)
    have live1: "cb_signal cb \<notin> aborted_signals ?t1" using live by simp
    let ?t' = "fire_tw i rnd t"
    have alt: "adds_one (cb_signal cb) ?t1 ?t' \<or> completes ?t1 ?t'"
    proof (cases cb)
      case (TypeNextLine run)
      then show ?thesis
        using typeNextLine_cases[of run ?t1] live1 f by (auto simp: completes_def)
    next
      case (TypeNext run ty)
      then show ?thesis
        using typeNext_adds_one[of run ?t1 rnd ty] live1 f by simp
    qed
    show ?thesis
    proof (cases "adds_one (cb_signal cb) ?t1 ?t'")
      case True
      then obtain d' cb' where n: "tw_timers ?t' = ?rem @ [(d', cb')]" "cb_signal cb' = cb_signal cb"
        and sc: "same_control ?t1 ?t'" and h: "replayBtn_hidden ?t' = replayBtn_hidden t"
        by (auto simp: adds_one_def)
      have lt: "live_timers ?t' = [(d', cb')]"
        using n sc l1 live by (simp add: live_timers_def same_control_def)
      have "tw_inv ?t'"
        using n sc bound1 cbound cur lt
        by (simp add: tw_inv_def same_control_def)
      then show ?thesis
        using sc h lne by (simp add: fire_outcome_def same_control_def)
    next
      case False
      then have c: "completes ?t1 ?t'" using alt by simp
      then have lt: "live_timers ?t' = []"
        using l1 by (simp add: completes_def same_control_def live_timers_def)
      have "tw_inv ?t'"
        using c bound1 lt by (simp add: tw_inv_def completes_def same_control_def)
      then show ?thesis
        using c lne lt by (auto simp: fire_outcome_def completes_def same_control_def)
    qed
  qed
qed

subsection \<open>Starting and resetting\<close>

lemma fold_clear_line_frame:
  "tw_timers (fold clear_line os s) = tw_timers s
   \<and> aborted_signals (fold clear_line os s) = aborted_signals s
   \<and> typewriterAbortController (fold clear_line os s) = typewriterAbortController s
   \<and> controllers_made (fold clear_line os s) = controllers_made s
   \<and> replayBtn_hidden (fold clear_line os s) = replayBtn_hidden s"
  by (induction os arbitrary: s) (simp_all add: clear_line_def set_active_frame set_innerHTML_frame)

lemma startTypewriter_outcome:
  assumes bound: "list_all (\<lambda>(d, cb). cb_signal cb < controllers_made t) (tw_timers t)"
    and idle: "live_timers t = []"
  shows "tw_inv (startTypewriter oc t)
       \<and> (replayBtn_hidden (startTypewriter oc t) = replayBtn_hidden t
          \<or> (\<not> replayBtn_hidden (startTypewriter oc t) \<and> live_timers (startTypewriter oc t) = []))"
proof -
  let ?c = "controllers_made t"
  let ?s1 = "t\<lparr>typewriterAbortController := Some ?c, controllers_made := ?c + 1,
               aborted_signals := aborted_signals t - {?c}\<rparr>"
  let ?s2 = "fold clear_line (typewriterOriginals ?s1) ?s1"
  let ?run = "\<lparr>run_signal = ?c, lineData = typewriterOriginals ?s1, currentLineIdx = 0,
                 onComplete = oc\<rparr>"
  let ?t' = "startTypewriter oc t"
  have st: "?t' = typeNextLine ?run ?s2"
    by (simp add: startTypewriter_def Let_def)
  have fr: "tw_timers ?s2 = tw_timers t \<and> aborted_signals ?s2 = aborted_signals t - {?c}
            \<and> typewriterAbortController ?s2 = Some ?c \<and> controllers_made ?s2 = ?c + 1
            \<and> replayBtn_hidden ?s2 = replayBtn_hidden t"
    using fold_clear_line_frame[of "typewriterOriginals ?s1" ?s1] by simp
  have old: "cb_signal cb \<noteq> ?c \<and> cb_signal cb \<in> aborted_signals t"
    if "(d, cb) \<in> set (tw_timers t)" for d cb
  proof -
    have "cb_signal cb < ?c" using bound that by (auto simp: list_all_iff)
    moreover have "cb_signal cb \<in> aborted_signals t"
      using idle that by (auto simp: live_timers_def filter_empty_conv)
    ultimately show ?thesis by simp
  qed
  have l2: "live_timers ?s2 = []"
    using old fr by (auto simp: live_timers_def filter_empty_conv)
  have b2: "list_all (\<lambda>(d, cb). cb_signal cb < controllers_made ?s2) (tw_timers ?s2)"
    using bound fr by (auto simp: list_all_iff)
  have na: "run_signal ?run \<notin> aborted_signals ?s2" using fr by simp
  from typeNextLine_cases[OF na]
  show ?thesis
  proof
    assume "adds_one (run_signal ?run) ?s2 (typeNextLine ?run ?s2)"
    then obtain d cb where n: "tw_timers ?t' = tw_timers ?s2 @ [(d, cb)]" "cb_signal cb = ?c"
      and sc: "same_control ?s2 ?t'" and h: "replayBtn_hidden ?t' = replayBtn_hidden ?s2"
      unfolding st by (auto simp: adds_one_def)
    have lt: "live_timers ?t' = [(d, cb)]"
      using n sc l2 fr by (simp add: live_timers_def same_control_def)
    have "tw_inv ?t'"
      using n sc b2 lt fr by (simp add: tw_inv_def same_control_def)
    then show ?thesis using h fr by simp
  next
    assume "completes ?s2 (typeNextLine ?run ?s2)"
    then have c: "completes ?s2 ?t'" unfolding st .
    then have lt: "live_timers ?t' = []"
      using l2 by (simp add: completes_def same_control_def live_timers_def)
    have "tw_inv ?t'"
      using c b2 lt by (simp add: tw_inv_def completes_def same_control_def)
    then show ?thesis using c lt fr by (auto simp: completes_def)
  qed
qed

lemma resetTypewriter_outcome:
  assumes "tw_inv t"
  shows "tw_inv (resetTypewriter t) \<and> live_timers (resetTypewriter t) = []
       \<and> replayBtn_hidden (resetTypewriter t) = replayBtn_hidden t"
proof -
  let ?a = "abort_controller t"
  have la: "live_timers ?a = []"
    using assms
    by (auto simp: tw_inv_def live_timers_def abort_controller_def list_all_iff filter_empty_conv
        split: option.splits)
  have fa: "tw_timers ?a = tw_timers t \<and> controllers_made ?a = controllers_made t
            \<and> replayBtn_hidden ?a = replayBtn_hidden t"
    by (simp add: abort_controller_def split: option.splits)
  let ?r = "resetTypewriter t"
  have fr: "tw_timers ?r = tw_timers ?a \<and> aborted_signals ?r = aborted_signals ?a
            \<and> replayBtn_hidden ?r = replayBtn_hidden ?a"
    using fold_restore_line_frame[of "typewriterOriginals ?a" ?a]
    by (simp add: resetTypewriter_def Let_def)
  have mr: "controllers_made ?r = controllers_made t"
  proof -
    have "controllers_made (fold restore_line os s) = controllers_made s" for os s
      by (induction os arbitrary: s)
         (simp_all add: restore_line_def set_active_frame set_innerHTML_frame)
    then show ?thesis using fa by (simp add: resetTypewriter_def Let_def)
  qed
  have lr: "live_timers ?r = []" using la fr by (simp add: live_timers_def)
  have "tw_inv ?r"
    using assms lr fr fa mr by (simp add: tw_inv_def)
  then show ?thesis using lr fr fa by simp
qed

section \<open>Properties of the celebration page\<close>

subsection \<open>The invariant\<close>

lemma tw_inv_hidden_irrelevant: "tw_inv (t\<lparr>replayBtn_hidden := b\<rparr>) = tw_inv t"
  by (simp add: tw_inv_def live_timers_def)

lemma live_timers_hidden_irrelevant: "live_timers (t\<lparr>replayBtn_hidden := b\<rparr>) = live_timers t"
  by (simp add: live_timers_def)

lemma celebration_inv_page_load: "page_load_ok s \<Longrightarrow> celebration_inv s"
  by (simp add: page_load_ok_def celebration_inv_def tw_inv_def live_timers_def)

lemma celebration_inv_openEnvelope:
  assumes "celebration_inv s"
  shows "celebration_inv (openEnvelope s)"
proof (cases "envelopeOpened (envelope s)")
  case True
  then show ?thesis using assms by (simp add: openEnvelope_def)
next
  case False
  then have "envelope_timers (envelope s) = [] \<and> live_timers (typewriter s) = []
             \<and> replayBtn_hidden (typewriter s)"
    using assms by (auto simp: celebration_inv_def)
  then show ?thesis
    using assms False by (simp add: openEnvelope_def celebration_inv_def)
qed

lemma celebration_inv_envelope_timer:
  assumes "celebration_inv s"
  shows "celebration_inv (fire_envelope_timer s)"
proof (cases "envelope_timers (envelope s)")
  case Nil
  then show ?thesis using assms by (simp add: fire_envelope_timer_def)
next
  case (Cons dc rest)
  obtain d cb where dc: "dc = (d, cb)" by (cases dc)
  have rest: "rest = []" using assms Cons by (simp add: celebration_inv_def)
  have idle: "live_timers (typewriter s) = []"
    and oh: "envelopeOpened (envelope s)" "replayBtn_hidden (typewriter s)"
    and ti: "tw_inv (typewriter s)"
    using assms Cons by (auto simp: celebration_inv_def)
  let ?s1 = "s\<lparr>envelope := (envelope s)\<lparr>envelope_timers := []\<rparr>\<rparr>"
  have f: "fire_envelope_timer s = run_envelope_callback cb ?s1"
    using Cons dc rest by (simp add: fire_envelope_timer_def)
  show ?thesis
  proof (cases cb)
    case RevealCard
    then show ?thesis
      unfolding f using idle oh ti
      by (simp add: run_envelope_callback_def celebration_inv_def)
  next
    case StartTyping
    have b: "list_all (\<lambda>(d, cb). cb_signal cb < controllers_made (typewriter s))
               (tw_timers (typewriter s))"
      using ti by (simp add: tw_inv_def)
    note so = startTypewriter_outcome[OF b idle, of "Some ShowReplayButton"]
    show ?thesis
      unfolding f using StartTyping so oh
      by (auto simp: run_envelope_callback_def celebration_inv_def)
  qed
qed

lemma celebration_inv_typewriter_timer:
  assumes "celebration_inv s"
  shows "celebration_inv (s\<lparr>typewriter := fire_tw i rnd (typewriter s)\<rparr>)"
proof -
  have ti: "tw_inv (typewriter s)" using assms by (simp add: celebration_inv_def)
  note fo = fire_tw_outcome[OF ti, of i rnd]
  show ?thesis
  proof (cases "live_timers (typewriter s) = []")
    case True
    then show ?thesis
      using assms fo by (simp add: celebration_inv_def fire_outcome_def)
  next
    case False
    then have "envelope_timers (envelope s) = [] \<and> envelopeOpened (envelope s)
               \<and> replayBtn_hidden (typewriter s)"
      using assms by (auto simp: celebration_inv_def)
    then show ?thesis
      using False fo by (auto simp: celebration_inv_def fire_outcome_def)
  qed
qed

lemma celebration_inv_replay:
  assumes "celebration_inv s" and "\<not> replayBtn_hidden (typewriter s)"
  shows "celebration_inv (replay rnd s)"
proof -
  have e: "envelope_timers (envelope s) = []"
    using assms by (auto simp: celebration_inv_def)
  have ti: "tw_inv ((typewriter s)\<lparr>replayBtn_hidden := True\<rparr>)"
    using assms(1) by (simp add: celebration_inv_def tw_inv_hidden_irrelevant)
  note ro = resetTypewriter_outcome[OF ti]
  show ?thesis
    using ro e by (simp add: replay_def celebration_inv_def replay_envelope_def)
qed

lemma celebration_inv_step: "celebration_inv s \<Longrightarrow> celebration_inv (app_step ev s)"
  by (cases ev)
     (simp_all add: celebration_inv_openEnvelope celebration_inv_envelope_timer
       celebration_inv_typewriter_timer celebration_inv_replay)

lemma celebration_inv_run: "celebration_inv s \<Longrightarrow> celebration_inv (app_run evs s)"
  by (induction evs arbitrary: s) (simp_all add: celebration_inv_step del: app_step.simps)

subsection \<open>Reveals in flight\<close>

lemma in_flight_live: "in_flight t = remdups (map (\<lambda>(d, cb). cb_signal cb) (live_timers t))"
  by (simp add: in_flight_def live_timers_def filter_map comp_def case_prod_unfold)

lemma tw_inv_in_flight:
  assumes "tw_inv t"
  shows "length (in_flight t) \<le> 1 \<and> only_current_live t"
proof -
  have "length (in_flight t) \<le> length (live_timers t)"
    unfolding in_flight_live
    by (metis length_map length_remdups_leq)
  moreover have "only_current_live t"
    using assms
    by (auto simp: only_current_live_def in_flight_live tw_inv_def list_all_iff)
  ultimately show ?thesis using assms by (simp add: tw_inv_def)
qed

lemma typeNextLine_aborted_signals:
  "aborted_signals (typeNextLine run s) = aborted_signals s"
proof (cases "run_signal run \<in> aborted_signals s")
  case True
  then show ?thesis by (simp add: typeNextLine_aborted)
next
  case False
  then show ?thesis
    using typeNextLine_cases[OF False]
    by (auto simp: adds_one_def completes_def same_control_def)
qed

lemma startTypewriter_aborts_nothing:
  "aborted_signals (startTypewriter oc t) = aborted_signals t - {controllers_made t}"
  using fold_clear_line_frame
  by (simp add: startTypewriter_def Let_def typeNextLine_aborted_signals)

text \<open>
  Claim C5, amended: in every state reached from the page load through the handlers of the
  celebration page (clicks on the envelope, envelope timers, typewriter timers, clicks on the
  replay button while it is shown), at most one reveal is in flight, and it is the one the
  controller variable refers to; while a timer of \<^verbatim>\<open>openEnvelope\<close> is pending, so that
  \<^verbatim>\<open>startTypewriter\<close> is still to be invoked, no reveal is in flight.
  \<^verbatim>\<open>startTypewriter\<close> itself aborts nothing: for every state \<open>t\<close> the aborted signals
  after the call are those before it, the fresh one excluded. The single reveal is kept by
  the guard \<^verbatim>\<open>envelopeOpened\<close> of \<^verbatim>\<open>openEnvelope\<close> and by \<^verbatim>\<open>resetTypewriter\<close> in the
  replay handler.
\<close>

theorem one_reveal_in_flight:
  assumes "page_load_ok s0" and "s = app_run evs s0"
  shows "length (in_flight (typewriter s)) \<le> 1
     \<and> only_current_live (typewriter s)
     \<and> (envelope_timers (envelope s) = [] \<or> in_flight (typewriter s) = [])
     \<and> aborted_signals (startTypewriter oc t) = aborted_signals t - {controllers_made t}"
proof -
  have inv: "celebration_inv s"
    using assms by (simp add: celebration_inv_run celebration_inv_page_load)
  then have ti: "tw_inv (typewriter s)" by (simp add: celebration_inv_def)
  have "envelope_timers (envelope s) = [] \<or> in_flight (typewriter s) = []"
    using inv by (auto simp: celebration_inv_def in_flight_live)
  then show ?thesis
    using tw_inv_in_flight[OF ti] startTypewriter_aborts_nothing by simp
qed

lemma sample_app_ok: "page_load_ok sample_app"
  by (simp add: page_load_ok_def sample_app_def load_originals_def sample_letter_def)

lemma typing_started_in_flight:
  "in_flight (typewriter (app_run typing_started sample_app)) = [0]"
  by code_simp

theorem one_reveal_in_flight_witness:
  "page_load_ok sample_app
   \<and> in_flight (typewriter (app_run typing_started sample_app)) = [0]
   \<and> only_current_live (typewriter (app_run typing_started sample_app))
   \<and> envelope_timers (envelope (app_run typing_started sample_app)) = []"
  using one_reveal_in_flight[OF sample_app_ok refl, of typing_started]
    sample_app_ok typing_started_in_flight
  by simp

text \<open>
  Claim C5, as the specification states it, says that every invocation of
  \<^verbatim>\<open>startTypewriter\<close> first aborts a reveal that is still running. Invoked twice in a row
  on the sample letter, the function leaves the first reveal (signal 0) unaborted beside the
  second (signal 1): two reveals are in flight.
\<close>

theorem startTypewriter_twice_counterexample:
  "in_flight (startTypewriter None (startTypewriter None (load_originals sample_letter))) = [0, 1]
   \<and> 0 \<notin> aborted_signals (startTypewriter None (startTypewriter None (load_originals sample_letter)))
   \<and> \<not> length (in_flight (startTypewriter None (startTypewriter None (load_originals sample_letter)))) \<le> 1"
  by code_simp

subsection \<open>The replay handler, applied twice\<close>

lemma restore_line_lines: "restore_line orig s = s\<lparr>tw_lines := restore_lines orig (tw_lines s)\<rparr>"
proof (cases "orig_el orig < length (tw_lines s)")
  case True
  then show ?thesis
    by (simp add: restore_line_def set_active_def set_innerHTML_def restore_lines_def fix_line_def)
next
  case False
  then have b: "(tw_lines s)[orig_el orig := v] = tw_lines s" for v
    by (simp add: list_update_beyond)
  show ?thesis
    by (simp add: restore_line_def set_active_def set_innerHTML_def restore_lines_def b)
qed

lemma restore_lines_nth:
  "e < length ls \<Longrightarrow>
     restore_lines orig ls ! e = (if orig_el orig = e then fix_line orig (ls ! e) else ls ! e)"
  by (simp add: restore_lines_def nth_list_update)

lemma fold_restore_line_lines:
  "fold restore_line os s = s\<lparr>tw_lines := fold restore_lines os (tw_lines s)\<rparr>"
  by (induction os arbitrary: s) (simp_all add: restore_line_lines)

lemma fix_line_twice: "fix_line a (fix_line b l) = fix_line a l"
  by (simp add: fix_line_def)

lemma length_fold_restore_lines: "length (fold restore_lines os ls) = length ls"
  by (induction os arbitrary: ls) (simp_all add: restore_lines_def)

lemma fold_restore_lines_nth:
  "e < length ls \<Longrightarrow>
     fold restore_lines os ls ! e
       = (case find (\<lambda>orig. orig_el orig = e) (rev os) of
            None \<Rightarrow> ls ! e
          | Some orig \<Rightarrow> fix_line orig (ls ! e))"
proof (induction os rule: rev_induct)
  case Nil
  then show ?case by simp
next
  case (snoc orig os)
  let ?L = "fold restore_lines os ls"
  have len: "e < length ?L" using snoc.prems by (simp add: length_fold_restore_lines)
  have step: "fold restore_lines (os @ [orig]) ls ! e
                = (if orig_el orig = e then fix_line orig (?L ! e) else ?L ! e)"
    using restore_lines_nth[OF len, of orig] by simp
  show ?case
  proof (cases "orig_el orig = e")
    case True
    then show ?thesis
      unfolding step snoc.IH[OF snoc.prems]
      by (simp add: fix_line_twice split: option.splits)
  next
    case False
    then show ?thesis
      unfolding step snoc.IH[OF snoc.prems] by simp
  qed
qed

lemma fold_restore_lines_idem:
  "fold restore_lines os (fold restore_lines os ls) = fold restore_lines os ls"
proof (rule nth_equalityI)
  show "length (fold restore_lines os (fold restore_lines os ls)) = length (fold restore_lines os ls)"
    by (simp add: length_fold_restore_lines)
next
  fix e
  assume "e < length (fold restore_lines os (fold restore_lines os ls))"
  then have e: "e < length ls" by (simp add: length_fold_restore_lines)
  then have e': "e < length (fold restore_lines os ls)" by (simp add: length_fold_restore_lines)
  show "fold restore_lines os (fold restore_lines os ls) ! e = fold restore_lines os ls ! e"
    by (simp add: fold_restore_lines_nth[OF e'] fold_restore_lines_nth[OF e] fix_line_twice
        split: option.splits)
qed

lemma resetTypewriter_shape:
  "resetTypewriter t
     = (abort_controller t)\<lparr>tw_lines := fold restore_lines (typewriterOriginals t) (tw_lines t)\<rparr>"
  using abort_controller_view[of t]
  by (simp add: resetTypewriter_def Let_def fold_restore_line_lines)

lemma abort_controller_idem: "abort_controller (abort_controller t) = abort_controller t"
  by (simp add: abort_controller_def split: option.splits)

lemma abort_controller_lines_update:
  "abort_controller (t\<lparr>tw_lines := ls\<rparr>) = (abort_controller t)\<lparr>tw_lines := ls\<rparr>"
  by (simp add: abort_controller_def split: option.splits)

lemma resetTypewriter_idem: "resetTypewriter (resetTypewriter t) = resetTypewriter t"
  using abort_controller_view[of t]
  by (simp add: resetTypewriter_shape abort_controller_lines_update abort_controller_idem
      fold_restore_lines_idem)

lemma resetTypewriter_hidden:
  "resetTypewriter (t\<lparr>replayBtn_hidden := b\<rparr>) = (resetTypewriter t)\<lparr>replayBtn_hidden := b\<rparr>"
  by (simp add: resetTypewriter_shape abort_controller_def split: option.splits)

lemma replay_typewriter_twice:
  "resetTypewriter ((resetTypewriter (t\<lparr>replayBtn_hidden := True\<rparr>))\<lparr>replayBtn_hidden := True\<rparr>)
     = resetTypewriter (t\<lparr>replayBtn_hidden := True\<rparr>)"
  by (simp add: resetTypewriter_hidden resetTypewriter_idem)

lemma replay_captcha_twice:
  "initCaptchaGrid r2 (replay_captcha (initCaptchaGrid r1 (replay_captcha c)))
     = (initCaptchaGrid r1 (replay_captcha c))
         \<lparr>captchaGrid := build_cells (shuffleArray r2 CAPTCHA_IMAGES)\<rparr>"
  by (simp add: initCaptchaGrid_def replay_captcha_def updateVerifyButton_def Let_def)

lemma replay_evasion_twice: "replay_evasion (replay_evasion e) = replay_evasion e"
  by (simp add: replay_evasion_def)

lemma replay_envelope_twice: "replay_envelope (replay_envelope e) = replay_envelope e"
  by (simp add: replay_envelope_def)

lemma first_slide_only_twice: "first_slide_only (first_slide_only tr) = first_slide_only tr"
  by (simp add: first_slide_only_def split: option.splits)

lemma stopSideGalleries_twice: "stopSideGalleries (stopSideGalleries g) = stopSideGalleries g"
  by (simp add: stopSideGalleries_def Let_def js_falsy_def split: option.splits)

lemma resetGallery_twice: "resetGallery (resetGallery g) = resetGallery g"
proof -
  have "stopSideGalleries (resetGallery g) = resetGallery g"
    by (simp add: resetGallery_def stopSideGalleries_def Let_def js_falsy_def split: option.splits)
  then show ?thesis
    by (simp add: resetGallery_def[of "resetGallery g"] Let_def)
       (simp add: resetGallery_def Let_def first_slide_only_twice)
qed

lemma stopStarfield_twice: "stopStarfield (stopStarfield f) = stopStarfield f"
  by (simp add: stopStarfield_def Let_def js_falsy_def split: option.splits)

lemma replay_confetti_twice: "replay_confetti (replay_confetti c) = replay_confetti c"
  by (simp add: replay_confetti_def Let_def js_falsy_def split: option.splits)

lemma replay_hearts_twice: "replay_hearts (replay_hearts h) = replay_hearts h"
  by (simp add: replay_hearts_def stopFloatingHearts_def js_falsy_def split: option.splits)

lemma showPage_twice:
  "showPage p (showPage p s) = (showPage p s)\<lparr>page_frames := page_frames (showPage p s) @ [OuterFrame p]\<rparr>"
  by (simp add: showPage_def Let_def)

text \<open>
  Claim C9, amended: calling the replay handler twice in a row leaves the same state as
  calling it once in every component but one: the display order of the challenge grid, which
  each call reshuffles from its own draws (and, unobservably, one more pending frame of
  \<^verbatim>\<open>showPage\<close>). The selection set, the failure counter, the evasion state, the
  typewriter and its lines, both particle sets, the hearts, the galleries, the envelope and
  the stage are identical; when both calls draw the same numbers the grid is identical too.
\<close>

theorem replay_twice:
  "replay r2 (replay r1 s)
     = (replay r1 s)
         \<lparr>captcha := (captcha (replay r1 s))\<lparr>captchaGrid := build_cells (shuffleArray r2 CAPTCHA_IMAGES)\<rparr>,
          pages := (pages (replay r1 s))
                     \<lparr>page_frames := page_frames (pages (replay r1 s)) @ [OuterFrame CAPTCHA]\<rparr>\<rparr>
   \<and> selectedCells (captcha (replay r2 (replay r1 s))) = selectedCells (captcha (replay r1 s))
   \<and> failureCount (captcha (replay r2 (replay r1 s))) = failureCount (captcha (replay r1 s))
   \<and> evasion (replay r2 (replay r1 s)) = evasion (replay r1 s)
   \<and> typewriter (replay r2 (replay r1 s)) = typewriter (replay r1 s)
   \<and> confetti (replay r2 (replay r1 s)) = confetti (replay r1 s)
   \<and> starfield (replay r2 (replay r1 s)) = starfield (replay r1 s)
   \<and> hearts (replay r2 (replay r1 s)) = hearts (replay r1 s)
   \<and> gallery (replay r2 (replay r1 s)) = gallery (replay r1 s)
   \<and> envelope (replay r2 (replay r1 s)) = envelope (replay r1 s)
   \<and> currentPage (pages (replay r2 (replay r1 s))) = currentPage (pages (replay r1 s))
   \<and> active_pages (pages (replay r2 (replay r1 s))) = active_pages (pages (replay r1 s))
   \<and> replay r1 (replay r1 s)
       = (replay r1 s)\<lparr>pages := (pages (replay r1 s))
                     \<lparr>page_frames := page_frames (pages (replay r1 s)) @ [OuterFrame CAPTCHA]\<rparr>\<rparr>"
proof -
  have eq: "replay r2 (replay r1 s)
     = (replay r1 s)
         \<lparr>captcha := (captcha (replay r1 s))\<lparr>captchaGrid := build_cells (shuffleArray r2 CAPTCHA_IMAGES)\<rparr>,
          pages := (pages (replay r1 s))
                     \<lparr>page_frames := page_frames (pages (replay r1 s)) @ [OuterFrame CAPTCHA]\<rparr>\<rparr>"
    for r2
    by (simp add: replay_def replay_typewriter_twice replay_captcha_twice replay_evasion_twice
        replay_envelope_twice resetGallery_twice stopStarfield_twice replay_confetti_twice
        replay_hearts_twice showPage_twice)
  have g: "captchaGrid (captcha (replay r1 s)) = build_cells (shuffleArray r1 CAPTCHA_IMAGES)"
    by (simp add: replay_def initCaptchaGrid_def Let_def updateVerifyButton_def)
  have same: "replay r1 (replay r1 s)
       = (replay r1 s)\<lparr>pages := (pages (replay r1 s))
                     \<lparr>page_frames := page_frames (pages (replay r1 s)) @ [OuterFrame CAPTCHA]\<rparr>\<rparr>"
    unfolding eq[of r1] g[symmetric] by simp
  show ?thesis
    unfolding eq[of r2] using same by (simp add: showPage_def Let_def replay_def)
qed

lemma captchaGrid_replay:
  "captchaGrid (captcha (replay r s)) = build_cells (shuffleArray r CAPTCHA_IMAGES)"
  by (simp add: replay_def initCaptchaGrid_def Let_def updateVerifyButton_def)

lemma shuffles_differ:
  "map img_src (build_cells (shuffleArray half_draws CAPTCHA_IMAGES))
     \<noteq> map img_src (build_cells (shuffleArray zero_draws CAPTCHA_IMAGES))"
  by code_simp

text \<open>
  Claim C9, as the specification states it: the second call leaves the observable state the
  first call established. On the sample page, with every draw of the first call 0 and every
  draw of the second call 1/2, the grid shows its images in a different order after the
  second call.
\<close>

theorem replay_twice_counterexample:
  "map img_src (captchaGrid (captcha (replay half_draws (replay zero_draws sample_app))))
     \<noteq> map img_src (captchaGrid (captcha (replay zero_draws sample_app)))"
  using shuffles_differ by (simp add: captchaGrid_replay)

end
